theory Spec2Isabelle
  imports Main "HOL-Library.AList"
begin

section \<open>The sandboxed loader of \<open>ProjectSandbox.vue\<close>\<close>

text \<open>
  The development embeds the \<open>script setup\<close> block of the sandbox component: the URL
  resolver (\<open>isExternal\<close>, \<open>resolveUrl\<close>, \<open>normaliseSrcSet\<close>), the document
  transformer (\<open>transferAttributes\<close>, \<open>cloneNodeTree\<close>), the instrumented scope and
  the executor (\<open>injectHtml\<close>), the loader (\<open>loadProject\<close>, the \<open>watch\<close> callback
  on the descriptor, \<open>onBeforeUnmount\<close>), \<open>clearShadow\<close>, and the life cycle of the
  DPR sizer (\<open>enableDprSizer\<close>, \<open>disableDprSizer\<close>, the \<open>watch\<close> callback on
  \<open>fullscreen\<close>).

  The sources hold three texts of the component: two in \<open>ProjectSandbox.vue\<close> (lines
  1-281, without instrumentation, and lines 282-670, where \<open>clearShadow\<close> only removes
  the children of the root) and the latest one after the breadcrumb component in
  \<open>Breadcrumbs.vue\<close> (lines 65-708). The development follows the latest text: there
  \<open>clearShadow\<close> runs and empties the cleanup list and marks the root disposed, the
  timer and frame wrappers read that mark, and the compiled runner receives the timer,
  frame and observer functions as parameters. Line numbers below are those of
  \<open>Breadcrumbs.vue\<close>.

  What the browser provides and the repository does not contain is a parameter, collected
  in the record \<open>platform\<close>: the \<open>URL\<close> constructor, \<open>fetch\<close>, the
  \<open>DOMParser\<close>, the meaning of a script's source text, which names the DOM rejects,
  and whether \<open>ResizeObserver\<close> exists. The messages of the exceptions that
  \<open>URL\<close>, \<open>fetch\<close>, \<open>createElement\<close>, \<open>setAttribute\<close> and
  \<open>new Function\<close> raise come from the platform as well.

  Strings are sequences of code units below 256. On that range the white space of
  \<open>trim\<close> and of \<open>\s\<close> is tab, line feed, vertical tab, form feed, carriage
  return, space and the no-break space, and \<open>toLowerCase\<close> maps the letters
  \<open>A\<close>-\<open>Z\<close> and the capital letters of the upper half of Latin-1.

  Left out: the calls of \<open>dbg\<close>, which write to the console log and change nothing
  else; the pixel sizes that the DPR sizer writes to canvas elements, which depend on the
  layout; and the store of the compiled runner on its bucket entry, which is never read
  again. A release action of the cleanup list is one of the closures that the component
  pushes; none of them throws, so the \<open>catch\<close> around a release is never entered.
\<close>

subsection \<open>Strings\<close>

definition startsWith :: "string \<Rightarrow> string \<Rightarrow> bool" where
  "startsWith s p = (take (length p) s = p)"

definition code_unit :: "char \<Rightarrow> nat" where
  "code_unit c = of_char c"

definition is_upper :: "char \<Rightarrow> bool" where
  "is_upper c = (65 \<le> code_unit c \<and> code_unit c \<le> 90)"

definition is_lower :: "char \<Rightarrow> bool" where
  "is_lower c = (97 \<le> code_unit c \<and> code_unit c \<le> 122)"

definition is_alpha :: "char \<Rightarrow> bool" where
  "is_alpha c = (is_lower c \<or> is_upper c)"

definition is_digit :: "char \<Rightarrow> bool" where
  "is_digit c = (48 \<le> code_unit c \<and> code_unit c \<le> 57)"

text \<open>White space and line terminators of the language, below 256.\<close>

definition is_space :: "char \<Rightarrow> bool" where
  "is_space c = (c \<in> {CHR '' '', CHR 0x09, CHR 0x0A, CHR 0x0B, CHR 0x0C, CHR 0x0D, CHR 0xA0})"

text \<open>The capital letters of Latin-1 above 127: \<open>0xC0\<close>-\<open>0xDE\<close> without the
  multiplication sign \<open>0xD7\<close>.\<close>

definition is_upper_latin1 :: "char \<Rightarrow> bool" where
  "is_upper_latin1 c = (192 \<le> code_unit c \<and> code_unit c \<le> 222 \<and> code_unit c \<noteq> 215)"

definition lower_char :: "char \<Rightarrow> char" where
  "lower_char c =
     (if is_upper c \<or> is_upper_latin1 c then char_of (code_unit c + 32) else c)"

definition toLowerCase :: "string \<Rightarrow> string" where
  "toLowerCase s = map lower_char s"

text \<open>The DOM's own case mappings touch the letters of ASCII only.\<close>

definition ascii_lower :: "string \<Rightarrow> string" where
  "ascii_lower s = map (\<lambda>c. if is_upper c then char_of (code_unit c + 32) else c) s"

definition ascii_upper :: "string \<Rightarrow> string" where
  "ascii_upper s = map (\<lambda>c. if is_lower c then char_of (code_unit c - 32) else c) s"

definition trim :: "string \<Rightarrow> string" where
  "trim s = rev (dropWhile is_space (rev (dropWhile is_space s)))"

text \<open>\<open>s.split(',')\<close>: the pieces between the separators, the empty ones included.\<close>

fun split_on :: "char \<Rightarrow> string \<Rightarrow> string list" where
  "split_on d [] = [[]]"
| "split_on d (c # cs) =
     (if c = d then [] # split_on d cs
      else (case split_on d cs of [] \<Rightarrow> [[c]] | w # ws \<Rightarrow> (c # w) # ws))"

text \<open>
  \<open>s.split(/\s+/)\<close> on a trimmed string: the maximal runs of non-space characters, and
  the one empty piece for the empty string.
\<close>

function tokens :: "string \<Rightarrow> string list" where
  "tokens s =
     (case dropWhile is_space s of
        [] \<Rightarrow> []
      | c # cs \<Rightarrow> takeWhile (\<lambda>x. \<not> is_space x) (c # cs) # tokens (dropWhile (\<lambda>x. \<not> is_space x) cs))"
  by pat_completeness auto
termination
proof (relation "measure length")
  show "wf (measure length)" by simp
next
  fix s :: string and c cs
  assume a: "dropWhile is_space s = c # cs"
  have "length (dropWhile (\<lambda>x. \<not> is_space x) cs) \<le> length cs"
    by (rule length_dropWhile_le)
  moreover have "length (c # cs) \<le> length s"
    using length_dropWhile_le [of is_space s] a by simp
  ultimately show "(dropWhile (\<lambda>x. \<not> is_space x) cs, s) \<in> measure length"
    by simp
qed

declare tokens.simps [simp del]

definition split_ws :: "nat \<Rightarrow> string \<Rightarrow> string list" where
  "split_ws limit s = take limit (if s = [] then [[]] else tokens s)"

fun join :: "string \<Rightarrow> string list \<Rightarrow> string" where
  "join sep [] = []"
| "join sep [x] = x"
| "join sep (x # y # ys) = x @ sep @ join sep (y # ys)"

text \<open>\<open>s.replace(/pat/g, rep)\<close> for a pattern without metacharacters.\<close>

fun replace_all :: "string \<Rightarrow> string \<Rightarrow> string \<Rightarrow> string" where
  "replace_all pat rep [] = []"
| "replace_all pat rep (c # cs) =
     (if pat \<noteq> [] \<and> startsWith (c # cs) pat
      then rep @ replace_all pat rep (drop (length pat) (c # cs))
      else c # replace_all pat rep cs)"

fun digit_char :: "nat \<Rightarrow> char" where
  "digit_char n = char_of (48 + n)"

function show_nat :: "nat \<Rightarrow> string" where
  "show_nat n = (if n < 10 then [digit_char n] else show_nat (n div 10) @ [digit_char (n mod 10)])"
  by pat_completeness auto
termination
  by (relation "measure id") auto

declare show_nat.simps [simp del]

definition dq :: string where
  "dq = [CHR 0x22]"

subsection \<open>URL resolver\<close>

text \<open>
  Exceptions are values. \<open>AbortError\<close> is the rejection of an aborted fetch;
  \<open>InvalidCharacterError\<close> is the \<open>DOMException\<close> of a name that the DOM rejects.
  Each of them is an \<open>Error\<close> object for \<open>instanceof\<close>, and \<open>message\<close> is its
  \<open>message\<close> property.
\<close>

datatype js_error =
    AbortError | TypeError string | Error string | SyntaxError string
  | ReferenceError string | InvalidCharacterError string

fun message :: "js_error \<Rightarrow> string" where
  "message AbortError = []"
| "message (TypeError m) = m"
| "message (Error m) = m"
| "message (SyntaxError m) = m"
| "message (ReferenceError m) = m"
| "message (InvalidCharacterError m) = m"

text \<open>What the code reads of a parsed \<open>URL\<close> object.\<close>

record url =
  href :: string
  pathname :: string
  search :: string
  hash :: string

text \<open>
  \<open>new URL(value, base)\<close>: \<open>Inl m\<close> when the constructor throws its
  \<open>TypeError\<close>, with message \<open>m\<close>. A \<open>URL\<close> object given as base stands for its
  \<open>href\<close>.
\<close>

type_synonym url_constructor = "string \<Rightarrow> string \<Rightarrow> string + url"

text \<open>The tail \<open>[a-z0-9+\-.]*:\<close> of the scheme pattern, matched at the head of a string.\<close>

fun scheme_tail :: "string \<Rightarrow> bool" where
  "scheme_tail [] = False"
| "scheme_tail (c # cs) =
     (if c = CHR '':'' then True
      else if is_alpha c \<or> is_digit c \<or> c \<in> {CHR ''+'', CHR ''-'', CHR ''.''} then scheme_tail cs
      else False)"

text \<open>The regular expression \<open>/^([a-z][a-z0-9+\-.]*:|\/\/)/i\<close>.\<close>

definition scheme_or_slashes :: "string \<Rightarrow> bool" where
  "scheme_or_slashes v =
     ((case v of [] \<Rightarrow> False | c # cs \<Rightarrow> is_alpha c \<and> scheme_tail cs) \<or> startsWith v ''//'')"

definition isExternal :: "string \<Rightarrow> bool" where
  "isExternal v = (scheme_or_slashes v \<or> startsWith v ''data:'')"

definition resolveUrl :: "url_constructor \<Rightarrow> string \<Rightarrow> string \<Rightarrow> js_error + string" where
  "resolveUrl URL_new v baseUrl =
     (if v = [] \<or> startsWith v ''#'' \<or> isExternal v then Inr v
      else (case URL_new v baseUrl of
              Inl m \<Rightarrow> Inl (TypeError m)
            | Inr absolute \<Rightarrow> Inr (pathname absolute @ search absolute @ hash absolute)))"

text \<open>One candidate of a \<open>srcset\<close>; the empty string is the candidate that is filtered out.\<close>

definition srcset_candidate :: "url_constructor \<Rightarrow> string \<Rightarrow> string \<Rightarrow> js_error + string" where
  "srcset_candidate URL_new baseUrl candidate =
     (let parts = split_ws 2 (trim candidate) in
      if parts = [] \<or> hd parts = [] then Inr []
      else (case resolveUrl URL_new (hd parts) baseUrl of
              Inl e \<Rightarrow> Inl e
            | Inr u \<Rightarrow>
                (if length parts > 1 \<and> parts ! 1 \<noteq> [] then Inr (u @ '' '' @ parts ! 1)
                 else Inr u)))"

text \<open>\<open>xs.map(f)\<close> for an \<open>f\<close> that may throw: the first exception ends the loop.\<close>

fun map_throwing :: "('a \<Rightarrow> js_error + 'b) \<Rightarrow> 'a list \<Rightarrow> js_error + 'b list" where
  "map_throwing f [] = Inr []"
| "map_throwing f (x # xs) =
     (case f x of
        Inl e \<Rightarrow> Inl e
      | Inr y \<Rightarrow> (case map_throwing f xs of Inl e \<Rightarrow> Inl e | Inr ys \<Rightarrow> Inr (y # ys)))"

definition normaliseSrcSet :: "url_constructor \<Rightarrow> string \<Rightarrow> string \<Rightarrow> js_error + string" where
  "normaliseSrcSet URL_new v baseUrl =
     (case map_throwing (srcset_candidate URL_new baseUrl) (split_on CHR '','' v) of
        Inl e \<Rightarrow> Inl e
      | Inr cs \<Rightarrow> Inr (join '', '' (filter (\<lambda>c. c \<noteq> []) cs)))"

subsection \<open>Scripts as the calls they make\<close>

text \<open>
  A script's source text is opaque to the loader. What the loader's guarantees speak about
  is the calls a script makes on its scope, so the meaning of a compiled function body is
  a list of actions: a call of one of the resource-creating functions, through the
  \<open>window\<close> parameter, through the \<open>document\<close> parameter or as a bare identifier, a
  write to a recorder that the environment can observe, and a \<open>throw\<close>. A callback is
  named and carries the actions of its own body, run when the browser invokes it.
\<close>

datatype receiver = ViaWindow | ViaDocument | Bare

datatype api =
    SetTimeout | SetInterval | RequestAnimationFrame
  | AddEventListener string bool | NewResizeObserver

datatype action = Call receiver api callback | Record string | Throw string
  and callback = Callback nat "action list"

fun body_of :: "callback \<Rightarrow> action list" where
  "body_of (Callback n b) = b"

fun prop_of :: "api \<Rightarrow> string" where
  "prop_of SetTimeout = ''setTimeout''"
| "prop_of SetInterval = ''setInterval''"
| "prop_of RequestAnimationFrame = ''requestAnimationFrame''"
| "prop_of (AddEventListener ty capture) = ''addEventListener''"
| "prop_of NewResizeObserver = ''ResizeObserver''"

subsection \<open>The platform\<close>

record response =
  ok :: bool
  status :: nat
  response_text :: "string + string"

text \<open>
  \<open>fetch u\<close> is \<open>Inl m\<close> when the request fails on the network (the promise rejects
  with a \<open>TypeError\<close> of message \<open>m\<close>); \<open>response_text r\<close> is \<open>Inl m\<close> when
  reading the body fails. \<open>parseFromString\<close> gives the child nodes of the parsed
  document's body; an element is given by its \<open>tagName\<close>, its attributes and its child
  nodes. \<open>compile\<close> is \<open>new Function(..., body)\<close>: \<open>Inl m\<close> for a
  \<open>SyntaxError\<close>. \<open>invalidElementName\<close> and \<open>invalidAttributeName\<close> give the
  message of the \<open>InvalidCharacterError\<close> with which \<open>createElement\<close> and
  \<open>setAttribute\<close> reject a name.
\<close>

datatype node = TextNode string | ElementNode string "(string \<times> string) list" "node list" | OtherNode

record platform =
  URL_new :: url_constructor
  fetch :: "string \<Rightarrow> string + response"
  parseFromString :: "string \<Rightarrow> node list"
  origin :: string
  compile :: "string \<Rightarrow> string + action list"
  hasResizeObserver :: bool
  invalidElementName :: "string \<Rightarrow> string option"
  invalidAttributeName :: "string \<Rightarrow> string option"

subsection \<open>Document transformer\<close>

fun textContent :: "node \<Rightarrow> string" where
  "textContent (TextNode s) = s"
| "textContent (ElementNode tag attrs kids) = concat (map textContent kids)"
| "textContent OtherNode = []"

definition getAttribute :: "(string \<times> string) list \<Rightarrow> string \<Rightarrow> string option" where
  "getAttribute attrs name = map_of attrs name"

text \<open>
  \<open>document.createElement(name)\<close> in an HTML document: the element is an HTML element
  whatever the name, and its \<open>tagName\<close> is the name in ASCII upper case.
\<close>

definition createElement :: "platform \<Rightarrow> string \<Rightarrow> js_error + string" where
  "createElement p name =
     (case invalidElementName p name of
        Some m \<Rightarrow> Inl (InvalidCharacterError m)
      | None \<Rightarrow> Inr (ascii_upper name))"

text \<open>\<open>setAttribute\<close> on an HTML element lower-cases the name.\<close>

definition setAttribute ::
  "platform \<Rightarrow> string \<Rightarrow> string \<Rightarrow> (string \<times> string) list \<Rightarrow> js_error + (string \<times> string) list" where
  "setAttribute p name v attrs =
     (case invalidAttributeName p name of
        Some m \<Rightarrow> Inl (InvalidCharacterError m)
      | None \<Rightarrow> Inr (AList.update (ascii_lower name) v attrs))"

definition JS_MIME_TYPES :: "string list" where
  "JS_MIME_TYPES = [[], ''text/javascript'', ''application/javascript'']"

text \<open>
  \<open>attributeMap\<close> is an object literal, so a read with a key that it does not own finds
  the properties of \<open>Object.prototype\<close>.
\<close>

definition attributeMap :: "(string \<times> string list) list" where
  "attributeMap =
     [(''IMG'', [''src'', ''srcset'']),
      (''SOURCE'', [''src'', ''srcset'']),
      (''SCRIPT'', [''src'']),
      (''LINK'', [''href'']),
      (''A'', [''href'']),
      (''USE'', [''href'', ''xlink:href'']),
      (''VIDEO'', [''poster'']),
      (''AUDIO'', [''src''])]"

definition object_prototype_keys :: "string list" where
  "object_prototype_keys =
     [''constructor'', ''__defineGetter__'', ''__defineSetter__'', ''hasOwnProperty'',
      ''__lookupGetter__'', ''__lookupSetter__'', ''isPrototypeOf'', ''propertyIsEnumerable'',
      ''toString'', ''valueOf'', ''__proto__'', ''toLocaleString'']"

text \<open>The first loop of \<open>transferAttributes\<close>.\<close>

fun copy_attributes ::
  "platform \<Rightarrow> (string \<times> string) list \<Rightarrow> (string \<times> string) list \<Rightarrow> js_error + (string \<times> string) list" where
  "copy_attributes p target [] = Inr target"
| "copy_attributes p target ((name, v) # rest) =
     (if name = ''src'' \<or> name = ''href'' \<or> name = ''xlink:href'' \<or> name = ''srcset''
      then copy_attributes p target rest
      else (case setAttribute p name v target of
              Inl e \<Rightarrow> Inl e
            | Inr target' \<Rightarrow> copy_attributes p target' rest))"

text \<open>The \<open>candidates.forEach\<close> of \<open>transferAttributes\<close>; a malformed URL throws out of it.\<close>

fun resolve_attributes ::
  "platform \<Rightarrow> string \<Rightarrow> (string \<times> string) list \<Rightarrow> string list \<Rightarrow>
   (string \<times> string) list \<Rightarrow> js_error + (string \<times> string) list" where
  "resolve_attributes p baseUrl source [] target = Inr target"
| "resolve_attributes p baseUrl source (attribute # rest) target =
     (case getAttribute source attribute of
        None \<Rightarrow> resolve_attributes p baseUrl source rest target
      | Some rawValue \<Rightarrow>
          (if rawValue = [] then resolve_attributes p baseUrl source rest target
           else (case (if attribute = ''srcset'' then normaliseSrcSet (URL_new p) rawValue baseUrl
                       else resolveUrl (URL_new p) rawValue baseUrl) of
                   Inl e \<Rightarrow> Inl e
                 | Inr v \<Rightarrow>
                     (case setAttribute p attribute v target of
                        Inl e \<Rightarrow> Inl e
                      | Inr target' \<Rightarrow> resolve_attributes p baseUrl source rest target'))))"

text \<open>
  \<open>transferAttributes(target, source, baseUrl)\<close>, on the attribute lists of the two
  elements and the \<open>tagName\<close> of the source. For a tag name that is a property of
  \<open>Object.prototype\<close> the read \<open>attributeMap[source.tagName]\<close> is an object without
  \<open>forEach\<close>, and the call throws.
\<close>

definition transferAttributes ::
  "platform \<Rightarrow> (string \<times> string) list \<Rightarrow> string \<Rightarrow> (string \<times> string) list \<Rightarrow> string \<Rightarrow>
   js_error + (string \<times> string) list" where
  "transferAttributes p target tagName source baseUrl =
     (case copy_attributes p target source of
        Inl e \<Rightarrow> Inl e
      | Inr copied \<Rightarrow>
          (case map_of attributeMap tagName of
             Some candidates \<Rightarrow> resolve_attributes p baseUrl source candidates copied
           | None \<Rightarrow>
               (if tagName \<in> set object_prototype_keys
                then Inl (TypeError ''candidates.forEach is not a function'')
                else Inr copied)))"

record script_unit =
  code :: string
  runner :: "action list option"

text \<open>The \<open>src\<close> branch of a script element: fetch the resolved URL and take the body.\<close>

definition fetch_script :: "platform \<Rightarrow> string \<Rightarrow> string \<Rightarrow> js_error + string" where
  "fetch_script p src baseUrl =
     (case resolveUrl (URL_new p) src baseUrl of
        Inl e \<Rightarrow> Inl e
      | Inr u \<Rightarrow>
          (case fetch p u of
             Inl m \<Rightarrow> Inl (TypeError m)
           | Inr r \<Rightarrow>
               (if \<not> ok r
                then Inl (Error (''Unable to load project script ('' @ show_nat (status r) @ '')''))
                else (case response_text r of
                        Inl m \<Rightarrow> Inl (TypeError m)
                      | Inr body \<Rightarrow> Inr body))))"

definition script_type :: "(string \<times> string) list \<Rightarrow> string" where
  "script_type attrs =
     toLowerCase (trim (case getAttribute attrs ''type'' of None \<Rightarrow> [] | Some t \<Rightarrow> t))"

text \<open>An element under construction: created, then given attributes and children.\<close>

definition element_with ::
  "platform \<Rightarrow> string \<Rightarrow> string \<Rightarrow> (string \<times> string) list \<Rightarrow> string \<Rightarrow>
   js_error + string \<times> (string \<times> string) list" where
  "element_with p name tagName source baseUrl =
     (case createElement p name of
        Inl e \<Rightarrow> Inl e
      | Inr tag \<Rightarrow>
          (case transferAttributes p [] tagName source baseUrl of
             Inl e \<Rightarrow> Inl e
           | Inr a \<Rightarrow> Inr (tag, a)))"

text \<open>
  The branch of \<open>cloneNodeTree\<close> for an element whose \<open>tagName\<close> is
  \<open>SCRIPT\<close>: nothing for a type that is not JavaScript, else one push onto the
  bucket, of the fetched body or of the inline text; the clone is \<open>null\<close>.
\<close>

definition clone_script ::
  "platform \<Rightarrow> string \<Rightarrow> (string \<times> string) list \<Rightarrow> node list \<Rightarrow> script_unit list \<Rightarrow>
   js_error + (node option \<times> script_unit list)" where
  "clone_script p baseUrl attrs kids bucket =
     (if script_type attrs \<noteq> [] \<and> script_type attrs \<notin> set JS_MIME_TYPES then Inr (None, bucket)
      else (case getAttribute attrs ''src'' of
              None \<Rightarrow>
                Inr (None, bucket @ [\<lparr>code = concat (map textContent kids), runner = None\<rparr>])
            | Some src \<Rightarrow>
                (if src = []
                 then Inr (None, bucket @ [\<lparr>code = concat (map textContent kids), runner = None\<rparr>])
                 else (case fetch_script p src baseUrl of
                         Inl e \<Rightarrow> Inl e
                       | Inr body \<Rightarrow> Inr (None, bucket @ [\<lparr>code = body, runner = None\<rparr>])))))"

text \<open>The branch for a stylesheet link.\<close>

definition clone_link ::
  "platform \<Rightarrow> string \<Rightarrow> string \<Rightarrow> (string \<times> string) list \<Rightarrow> js_error + node" where
  "clone_link p baseUrl tagName attrs =
     (case element_with p ''link'' tagName attrs baseUrl of
        Inl e \<Rightarrow> Inl e
      | Inr (tag, a) \<Rightarrow>
          (case setAttribute p ''rel'' ''stylesheet'' a of
             Inl e \<Rightarrow> Inl e
           | Inr a' \<Rightarrow> Inr (ElementNode tag a' [])))"

text \<open>
  \<open>cloneNodeTree\<close> returns the clone (\<open>None\<close> for \<open>null\<close>) and the scripts bucket after
  its pushes, or the exception that ends the transform. The loop over the child nodes is
  \<open>cloneChildren\<close>.
\<close>

fun cloneNodeTree ::
    "platform \<Rightarrow> string \<Rightarrow> node \<Rightarrow> script_unit list \<Rightarrow> js_error + (node option \<times> script_unit list)"
  and cloneChildren ::
    "platform \<Rightarrow> string \<Rightarrow> node list \<Rightarrow> script_unit list \<Rightarrow> js_error + (node list \<times> script_unit list)"
where
  "cloneNodeTree p baseUrl (TextNode s) bucket = Inr (Some (TextNode s), bucket)"
| "cloneNodeTree p baseUrl OtherNode bucket = Inr (None, bucket)"
| "cloneNodeTree p baseUrl (ElementNode tagName attrs kids) bucket =
     (if tagName = ''SCRIPT'' then clone_script p baseUrl attrs kids bucket
      else if tagName = ''LINK'' \<and> getAttribute attrs ''rel'' = Some ''stylesheet'' then
        (case clone_link p baseUrl tagName attrs of
           Inl e \<Rightarrow> Inl e
         | Inr link \<Rightarrow> Inr (Some link, bucket))
      else
        (case element_with p (toLowerCase tagName) tagName attrs baseUrl of
           Inl e \<Rightarrow> Inl e
         | Inr (tag, a) \<Rightarrow>
             (case cloneChildren p baseUrl kids bucket of
                Inl e \<Rightarrow> Inl e
              | Inr (cs, bucket') \<Rightarrow> Inr (Some (ElementNode tag a cs), bucket'))))"
| "cloneChildren p baseUrl [] bucket = Inr ([], bucket)"
| "cloneChildren p baseUrl (child # rest) bucket =
     (case cloneNodeTree p baseUrl child bucket of
        Inl e \<Rightarrow> Inl e
      | Inr (clonedChild, bucket') \<Rightarrow>
          (case cloneChildren p baseUrl rest bucket' of
             Inl e \<Rightarrow> Inl e
           | Inr (cs, bucket'') \<Rightarrow>
               Inr ((case clonedChild of None \<Rightarrow> cs | Some c \<Rightarrow> c # cs), bucket'')))"

subsection \<open>The real window and document\<close>

text \<open>
  The resources the browser holds for the page: the pending timers (handle, repeating or
  not, the function to call), the requested animation frames, the registered event
  listeners and the resize observers that have not been disconnected. The function handed
  to a timer or a frame is the script's callback itself, or the closure of a wrapper that
  calls it unless the root is marked disposed.
\<close>

datatype target = Window | Document

datatype handler = Direct callback | Guarded callback

record realm =
  timers :: "(nat \<times> bool \<times> handler) list"
  frames :: "(nat \<times> handler) list"
  listeners :: "(target \<times> string \<times> callback \<times> bool) list"
  observers :: "(nat \<times> callback) list"
  next_timer :: nat
  next_frame :: nat
  next_observer :: nat

definition real_setTimer :: "bool \<Rightarrow> handler \<Rightarrow> realm \<Rightarrow> nat \<times> realm" where
  "real_setTimer repeating f w =
     (next_timer w,
      w\<lparr>timers := timers w @ [(next_timer w, repeating, f)], next_timer := Suc (next_timer w)\<rparr>)"

definition real_clearTimer :: "nat \<Rightarrow> realm \<Rightarrow> realm" where
  "real_clearTimer h w = w\<lparr>timers := filter (\<lambda>t. fst t \<noteq> h) (timers w)\<rparr>"

definition real_requestAnimationFrame :: "handler \<Rightarrow> realm \<Rightarrow> nat \<times> realm" where
  "real_requestAnimationFrame f w =
     (next_frame w, w\<lparr>frames := frames w @ [(next_frame w, f)], next_frame := Suc (next_frame w)\<rparr>)"

definition real_cancelAnimationFrame :: "nat \<Rightarrow> realm \<Rightarrow> realm" where
  "real_cancelAnimationFrame h w = w\<lparr>frames := filter (\<lambda>f. fst f \<noteq> h) (frames w)\<rparr>"

definition real_addEventListener :: "target \<Rightarrow> string \<Rightarrow> callback \<Rightarrow> bool \<Rightarrow> realm \<Rightarrow> realm" where
  "real_addEventListener tg ty cb capture w =
     (if (tg, ty, cb, capture) \<in> set (listeners w) then w
      else w\<lparr>listeners := listeners w @ [(tg, ty, cb, capture)]\<rparr>)"

definition real_removeEventListener :: "target \<Rightarrow> string \<Rightarrow> callback \<Rightarrow> bool \<Rightarrow> realm \<Rightarrow> realm" where
  "real_removeEventListener tg ty cb capture w =
     w\<lparr>listeners := filter (\<lambda>l. l \<noteq> (tg, ty, cb, capture)) (listeners w)\<rparr>"

definition real_ResizeObserver :: "callback \<Rightarrow> realm \<Rightarrow> nat \<times> realm" where
  "real_ResizeObserver cb w =
     (next_observer w,
      w\<lparr>observers := observers w @ [(next_observer w, cb)], next_observer := Suc (next_observer w)\<rparr>)"

definition real_disconnect :: "nat \<Rightarrow> realm \<Rightarrow> realm" where
  "real_disconnect i w = w\<lparr>observers := filter (\<lambda>ob. fst ob \<noteq> i) (observers w)\<rparr>"

text \<open>Which of the modelled function properties the real objects have.\<close>

definition real_has :: "platform \<Rightarrow> target \<Rightarrow> string \<Rightarrow> bool" where
  "real_has p tg prop =
     (case tg of
        Window \<Rightarrow>
          prop \<in> {''setTimeout'', ''setInterval'', ''requestAnimationFrame'',
                  ''clearTimeout'', ''clearInterval'', ''cancelAnimationFrame'',
                  ''addEventListener'', ''removeEventListener''}
          \<or> (prop = ''ResizeObserver'' \<and> hasResizeObserver p)
      | Document \<Rightarrow> prop \<in> {''addEventListener'', ''removeEventListener''})"

subsection \<open>Component state\<close>

text \<open>The closures pushed onto \<open>__sandboxCleanup\<close>, as data.\<close>

datatype release =
    ClearTimeout nat | ClearInterval nat | CancelAnimationFrame nat
  | RemoveEventListener target string callback bool | Disconnect nat
  | DisableDprSizer

datatype phase = Setup | Mounted | Unmounted

datatype kind = Loading | Loaded | Failed

datatype extra = NoExtra | ErrorMessage string | Empty

record payload =
  slug :: string
  entryPoint :: string
  ticketValue :: nat
  extra :: extra

definition createEventPayload :: "string \<Rightarrow> string \<Rightarrow> nat \<Rightarrow> extra \<Rightarrow> payload" where
  "createEventPayload sl ep t ex = \<lparr>slug = sl, entryPoint = ep, ticketValue = t, extra = ex\<rparr>"

text \<open>
  The values that reach a compiled runner or come back from a call, and the frame of one
  invocation. \<open>Wrapper tg prop\<close> is the closure that the \<open>get\<close> trap of the proxy on
  \<open>tg\<close> returns for \<open>prop\<close>; \<open>RealFunction tg prop\<close> is the real function bound to
  its object.
\<close>

datatype jsval =
    Undefined | Number int | GlobalThis | ShadowRoot | InstrumentedWindow | InstrumentedDocument
  | Wrapper target string | RealFunction target string | Observer nat

record frame =
  this_value :: jsval
  arguments :: "jsval list"

datatype completion = Throws js_error | Returns jsval

text \<open>
  A load is suspended at one of its \<open>await\<close>s: at the fetch of the entry document (and
  the read of its body), at the \<open>cloneNodeTree\<close> of one top-level child inside
  \<open>injectHtml\<close>, or at \<open>await injectHtml(...)\<close> with the outcome of \<open>injectHtml\<close>.
  The stage keeps the local variables of the suspended functions.
\<close>

datatype stage =
    AwaitFetch string string
  | AwaitClone string string string node "node list" "script_unit list"
  | AwaitInject string string "js_error option"

text \<open>
  \<open>phase\<close> tells whether \<open>host.value\<close> is set (\<open>Mounted\<close>). The shadow root of the
  host, once attached, has its \<open>childNodes\<close>, its \<open>__sandboxCleanup\<close> field
  (\<open>None\<close> while undefined) and its \<open>__sandboxDisposed\<close> field (false while
  undefined). Controllers are named by the ticket of the load that made them.
  \<open>fullscreen\<close> is the prop, \<open>dprSizer\<close> tells whether the variable of that name is
  set; the observers and the listener that the sizer holds are the component's own and are
  not among the resources of \<open>win\<close>. \<open>emitted\<close> are the events sent to the host, in
  order; \<open>console\<close> and \<open>warnings\<close> are the calls of \<open>console.error\<close> and
  \<open>console.warn\<close>.
\<close>

record sandbox =
  phase :: phase
  ticket :: nat
  activeController :: "nat option"
  aborted :: "nat set"
  hasShadow :: bool
  childNodes :: "node list"
  sandboxCleanup :: "release list option"
  sandboxDisposed :: bool
  fullscreen :: bool
  dprSizer :: bool
  emitted :: "(kind \<times> payload) list"
  win :: realm
  recorder :: "string list"
  console :: "(string \<times> js_error) list"
  warnings :: "(string \<times> js_error) list"
  invocations :: "frame list"
  tasks :: "nat \<Rightarrow> stage option"

definition initial :: sandbox where
  "initial =
     \<lparr>phase = Setup, ticket = 0, activeController = None, aborted = {}, hasShadow = False,
      childNodes = [], sandboxCleanup = None, sandboxDisposed = False,
      fullscreen = False, dprSizer = False, emitted = [],
      win = \<lparr>timers = [], frames = [], listeners = [], observers = [],
             next_timer = 1, next_frame = 1, next_observer = 1\<rparr>,
      recorder = [], console = [], warnings = [], invocations = [], tasks = (\<lambda>t. None)\<rparr>"

definition emit :: "kind \<Rightarrow> payload \<Rightarrow> sandbox \<Rightarrow> sandbox" where
  "emit k pl s = s\<lparr>emitted := emitted s @ [(k, pl)]\<rparr>"

subsection \<open>The ledger\<close>

definition disableDprSizer :: "sandbox \<Rightarrow> sandbox" where
  "disableDprSizer s = (if \<not> dprSizer s then s else s\<lparr>dprSizer := False\<rparr>)"

fun run_release :: "release \<Rightarrow> sandbox \<Rightarrow> sandbox" where
  "run_release (ClearTimeout h) s = s\<lparr>win := real_clearTimer h (win s)\<rparr>"
| "run_release (ClearInterval h) s = s\<lparr>win := real_clearTimer h (win s)\<rparr>"
| "run_release (CancelAnimationFrame h) s = s\<lparr>win := real_cancelAnimationFrame h (win s)\<rparr>"
| "run_release (RemoveEventListener tg ty cb capture) s =
     s\<lparr>win := real_removeEventListener tg ty cb capture (win s)\<rparr>"
| "run_release (Disconnect i) s = s\<lparr>win := real_disconnect i (win s)\<rparr>"
| "run_release DisableDprSizer s = disableDprSizer s"

text \<open>
  The block under \<open>Array.isArray(...__sandboxCleanup)\<close>, the same in \<open>clearShadow\<close>
  and in \<open>injectHtml\<close>: every release is called, then the array is emptied in place.
\<close>

definition run_cleanup :: "sandbox \<Rightarrow> sandbox" where
  "run_cleanup s =
     (case sandboxCleanup s of
        Some fns \<Rightarrow> (foldl (\<lambda>s' fn. run_release fn s') s fns)\<lparr>sandboxCleanup := Some []\<rparr>
      | None \<Rightarrow> s)"

definition clearShadow :: "sandbox \<Rightarrow> sandbox" where
  "clearShadow s =
     (if phase s \<noteq> Mounted \<or> \<not> hasShadow s then s
      else (let s1 = run_cleanup s;
                s2 = (if sandboxCleanup s1 \<noteq> None then s1\<lparr>sandboxDisposed := True\<rparr> else s1)
            in s2\<lparr>childNodes := []\<rparr>))"

text \<open>\<open>cleanupList.push(fn)\<close>; the list is the array kept on the shadow root.\<close>

definition push_release :: "release \<Rightarrow> sandbox \<Rightarrow> sandbox" where
  "push_release fn s = s\<lparr>sandboxCleanup := map_option (\<lambda>fns. fns @ [fn]) (sandboxCleanup s)\<rparr>"

subsection \<open>The DPR sizer\<close>

text \<open>
  \<open>enableDprSizer\<close> constructs a \<open>ResizeObserver\<close> by its global name, which is a
  \<open>ReferenceError\<close> where the platform has none; it then registers its observers and
  its \<open>resize\<close> listener, sets \<open>dprSizer\<close> and pushes the release that disables it.
\<close>

definition enableDprSizer :: "platform \<Rightarrow> sandbox \<Rightarrow> js_error + sandbox" where
  "enableDprSizer p s =
     (if phase s \<noteq> Mounted \<or> \<not> hasShadow s then Inr s
      else if dprSizer s then Inr s
      else if \<not> hasResizeObserver p then Inl (ReferenceError ''ResizeObserver is not defined'')
      else Inr (push_release DisableDprSizer (s\<lparr>dprSizer := True\<rparr>)))"

text \<open>The callback of the \<open>watch\<close> on \<open>props.fullscreen\<close>; the framework catches what
  it throws.\<close>

definition on_fullscreen :: "platform \<Rightarrow> bool \<Rightarrow> sandbox \<Rightarrow> sandbox" where
  "on_fullscreen p next s =
     (if next then (case enableDprSizer p s of Inl e \<Rightarrow> s | Inr s' \<Rightarrow> s')
      else disableDprSizer s)"

subsection \<open>Instrumented scope\<close>

text \<open>The \<open>get\<close> trap of \<open>instrumentedDocument\<close>, for the properties that are called.\<close>

definition document_get :: "platform \<Rightarrow> string \<Rightarrow> jsval" where
  "document_get p prop =
     (if prop = ''addEventListener'' then Wrapper Document prop
      else if prop = ''removeEventListener'' then RealFunction Document prop
      else if real_has p Document prop then RealFunction Document prop
      else Undefined)"

text \<open>The \<open>get\<close> trap of \<open>instrumentedWindow\<close>.\<close>

definition window_get :: "platform \<Rightarrow> string \<Rightarrow> jsval" where
  "window_get p prop =
     (if prop = ''document'' then InstrumentedDocument
      else if prop = ''requestAnimationFrame'' then Wrapper Window prop
      else if prop = ''setTimeout'' then Wrapper Window prop
      else if prop = ''setInterval'' then Wrapper Window prop
      else if prop = ''addEventListener'' then Wrapper Window prop
      else if prop = ''removeEventListener'' then RealFunction Window prop
      else if prop = ''ResizeObserver'' \<and> hasResizeObserver p then Wrapper Window prop
      else if real_has p Window prop then RealFunction Window prop
      else Undefined)"

text \<open>
  The parameters of the compiled runner and the arguments of \<open>runner.call\<close> after
  \<open>thisArg\<close>. A bare identifier that is one of the parameters is the argument; any
  other is looked up in the global scope, which is the real window.
\<close>

definition runner_params :: "string list" where
  "runner_params =
     [''sandboxRoot'', ''window'', ''document'', ''requestAnimationFrame'',
      ''cancelAnimationFrame'', ''setTimeout'', ''clearTimeout'', ''setInterval'',
      ''clearInterval'', ''ResizeObserver'']"

definition runner_arguments :: "platform \<Rightarrow> jsval list" where
  "runner_arguments p =
     [ShadowRoot, InstrumentedWindow, InstrumentedDocument,
      window_get p ''requestAnimationFrame'', window_get p ''cancelAnimationFrame'',
      window_get p ''setTimeout'', window_get p ''clearTimeout'',
      window_get p ''setInterval'', window_get p ''clearInterval'',
      window_get p ''ResizeObserver'']"

definition scope_lookup :: "platform \<Rightarrow> string \<Rightarrow> jsval" where
  "scope_lookup p ident =
     (case map_of (zip runner_params (runner_arguments p)) ident of
        Some v \<Rightarrow> v
      | None \<Rightarrow> (if real_has p Window ident then RealFunction Window ident else Undefined))"

definition lookup :: "platform \<Rightarrow> receiver \<Rightarrow> string \<Rightarrow> jsval" where
  "lookup p rcv prop =
     (case rcv of
        ViaWindow \<Rightarrow> window_get p prop
      | ViaDocument \<Rightarrow> document_get p prop
      | Bare \<Rightarrow> scope_lookup p prop)"

text \<open>The real operation behind a call, with the value it returns.\<close>

fun real_call :: "target \<Rightarrow> api \<Rightarrow> callback \<Rightarrow> realm \<Rightarrow> jsval \<times> realm" where
  "real_call tg SetTimeout cb w =
     (let (h, w') = real_setTimer False (Direct cb) w in (Number (int h), w'))"
| "real_call tg SetInterval cb w =
     (let (h, w') = real_setTimer True (Direct cb) w in (Number (int h), w'))"
| "real_call tg RequestAnimationFrame cb w =
     (let (h, w') = real_requestAnimationFrame (Direct cb) w in (Number (int h), w'))"
| "real_call tg (AddEventListener ty capture) cb w =
     (Undefined, real_addEventListener tg ty cb capture w)"
| "real_call tg NewResizeObserver cb w =
     (let (i, w') = real_ResizeObserver cb w in (Observer i, w'))"

text \<open>
  The closures that the \<open>get\<close> traps return. The timer and frame wrappers return
  \<open>-1\<close> on a disposed root; otherwise they hand a guarded closure to the real function
  and push the release of its handle. The listener wrapper and the wrapped observer class
  do not read the mark.
\<close>

fun wrapper_call :: "target \<Rightarrow> api \<Rightarrow> callback \<Rightarrow> sandbox \<Rightarrow> completion \<times> sandbox" where
  "wrapper_call tg SetTimeout cb s =
     (if sandboxDisposed s then (Returns (Number (- 1)), s)
      else (let (h, w') = real_setTimer False (Guarded cb) (win s)
            in (Returns (Number (int h)), push_release (ClearTimeout h) (s\<lparr>win := w'\<rparr>))))"
| "wrapper_call tg SetInterval cb s =
     (if sandboxDisposed s then (Returns (Number (- 1)), s)
      else (let (h, w') = real_setTimer True (Guarded cb) (win s)
            in (Returns (Number (int h)), push_release (ClearInterval h) (s\<lparr>win := w'\<rparr>))))"
| "wrapper_call tg RequestAnimationFrame cb s =
     (if sandboxDisposed s then (Returns (Number (- 1)), s)
      else (let (h, w') = real_requestAnimationFrame (Guarded cb) (win s)
            in (Returns (Number (int h)), push_release (CancelAnimationFrame h) (s\<lparr>win := w'\<rparr>))))"
| "wrapper_call tg (AddEventListener ty capture) cb s =
     (Returns Undefined,
      push_release (RemoveEventListener tg ty cb capture)
        (s\<lparr>win := real_addEventListener tg ty cb capture (win s)\<rparr>))"
| "wrapper_call tg NewResizeObserver cb s =
     (let (i, w') = real_ResizeObserver cb (win s)
      in (Returns (Observer i), push_release (Disconnect i) (s\<lparr>win := w'\<rparr>)))"

text \<open>The \<open>TypeError\<close> of a call on a value that is not a function.\<close>

definition not_callable :: "receiver \<Rightarrow> api \<Rightarrow> js_error" where
  "not_callable rcv a =
     TypeError
       ((case rcv of ViaWindow \<Rightarrow> ''window.'' | ViaDocument \<Rightarrow> ''document.'' | Bare \<Rightarrow> [])
        @ prop_of a
        @ (if a = NewResizeObserver then '' is not a constructor'' else '' is not a function''))"

text \<open>One call of a script: the property read, then the call of what was read.\<close>

definition invoke :: "platform \<Rightarrow> receiver \<Rightarrow> api \<Rightarrow> callback \<Rightarrow> sandbox \<Rightarrow> completion \<times> sandbox" where
  "invoke p rcv a cb s =
     (case lookup p rcv (prop_of a) of
        Wrapper tg prop \<Rightarrow> wrapper_call tg a cb s
      | RealFunction tg prop \<Rightarrow> (let (v, w') = real_call tg a cb (win s) in (Returns v, s\<lparr>win := w'\<rparr>))
      | _ \<Rightarrow> (Throws (not_callable rcv a), s))"

text \<open>Running a function body: the first exception ends it.\<close>

fun exec_actions :: "platform \<Rightarrow> action list \<Rightarrow> sandbox \<Rightarrow> js_error option \<times> sandbox" where
  "exec_actions p [] s = (None, s)"
| "exec_actions p (Record v # rest) s = exec_actions p rest (s\<lparr>recorder := recorder s @ [v]\<rparr>)"
| "exec_actions p (Throw m # rest) s = (Some (Error m), s)"
| "exec_actions p (Call rcv a cb # rest) s =
     (case invoke p rcv a cb s of
        (Throws e, s') \<Rightarrow> (Some e, s')
      | (Returns v, s') \<Rightarrow> exec_actions p rest s')"

subsection \<open>Executor\<close>

definition use_strict :: string where
  "use_strict = dq @ ''use strict'' @ dq @ '';'' @ [CHR 0x0A]"

definition preparedCode :: "script_unit \<Rightarrow> string" where
  "preparedCode entry =
     replace_all ''document.currentScript.getRootNode()'' ''sandboxRoot'' (code entry)"

text \<open>
  \<open>f.call(thisArg, ...args)\<close>: a function whose body starts with the strict directive
  takes \<open>thisArg\<close> as it is; a sloppy one would replace \<open>undefined\<close> by the global object.
\<close>

definition function_call :: "string \<Rightarrow> jsval \<Rightarrow> jsval list \<Rightarrow> frame" where
  "function_call body thisArg args =
     \<lparr>this_value = (if startsWith body use_strict then thisArg
                    else if thisArg = Undefined then GlobalThis else thisArg),
      arguments = args\<rparr>"

text \<open>
  The callback of \<open>scriptsBucket.forEach\<close>. \<open>new Function\<close> stands before the
  \<open>try\<close>, so its \<open>SyntaxError\<close> leaves the callback; an exception of the run is caught
  and logged.
\<close>

definition run_script :: "platform \<Rightarrow> nat \<Rightarrow> script_unit \<Rightarrow> sandbox \<Rightarrow> js_error option \<times> sandbox" where
  "run_script p currentTicket entry s =
     (if ticket s \<noteq> currentTicket then (None, s)
      else (case (case runner entry of
                    Some r \<Rightarrow> Inr r
                  | None \<Rightarrow> compile p (use_strict @ preparedCode entry)) of
              Inl m \<Rightarrow> (Some (SyntaxError m), s)
            | Inr r \<Rightarrow>
                (let s1 = s\<lparr>invocations := invocations s @
                            [function_call (use_strict @ preparedCode entry) ShadowRoot
                               (runner_arguments p)]\<rparr>
                 in (case exec_actions p r s1 of
                       (None, s2) \<Rightarrow> (None, s2)
                     | (Some e, s2) \<Rightarrow>
                         (None, s2\<lparr>console := console s2 @
                                     [(''[sandbox] script execution failed:'', e)]\<rparr>)))))"

fun run_scripts :: "platform \<Rightarrow> nat \<Rightarrow> script_unit list \<Rightarrow> sandbox \<Rightarrow> js_error option \<times> sandbox" where
  "run_scripts p currentTicket [] s = (None, s)"
| "run_scripts p currentTicket (entry # rest) s =
     (case run_script p currentTicket entry s of
        (Some e, s') \<Rightarrow> (Some e, s')
      | (None, s') \<Rightarrow> run_scripts p currentTicket rest s')"

subsection \<open>\<open>injectHtml\<close>\<close>

definition defaultStyle_lines :: "string list" where
  "defaultStyle_lines =
     [''    :host([data-fullscreen='' @ dq @ ''true'' @ dq @ '']) {'',
      ''      width: 100%;'',
      ''      height: 100%;'',
      ''      display: block;'',
      ''    }'',
      ''    :host([data-fullscreen='' @ dq @ ''true'' @ dq @ '']) body {'',
      ''      margin: 0;'',
      ''      min-height: 100%;'',
      ''    }'',
      ''    /* Expand canvases in fullscreen to fill the sandbox host */'',
      ''    :host([data-fullscreen='' @ dq @ ''true'' @ dq @ '']) canvas {'',
      ''      width: 100% !important;'',
      ''      height: 100% !important;'',
      ''      max-width: 100% !important;'',
      ''      max-height: 100% !important;'',
      ''      display: block;'',
      ''    }'']"

definition defaultStyle :: node where
  "defaultStyle =
     ElementNode ''STYLE'' []
       [TextNode (concat (map (\<lambda>l. CHR 0x0A # l) defaultStyle_lines) @ [CHR 0x0A] @ ''  '')]"

text \<open>
  \<open>injectHtml\<close> from the shadow root to the default style sheet: the shadow root is
  attached if there is none, the cleanup list is run and emptied (or created), the
  children are removed, the disposed mark is reset and the style element is appended.
\<close>

definition prepare_root :: "sandbox \<Rightarrow> sandbox" where
  "prepare_root s =
     (let s1 = s\<lparr>hasShadow := True\<rparr>;
          s2 = (if sandboxCleanup s1 \<noteq> None then run_cleanup s1 else s1\<lparr>sandboxCleanup := Some []\<rparr>);
          s3 = s2\<lparr>childNodes := []\<rparr>;
          s4 = s3\<lparr>sandboxDisposed := False\<rparr>
      in s4\<lparr>childNodes := childNodes s4 @ [defaultStyle]\<rparr>)"

definition settle_inject :: "nat \<Rightarrow> string \<Rightarrow> string \<Rightarrow> js_error option \<Rightarrow> sandbox \<Rightarrow> sandbox" where
  "settle_inject t sl ep res s = s\<lparr>tasks := (tasks s)(t \<mapsto> AwaitInject sl ep res)\<rparr>"

text \<open>The end of \<open>injectHtml\<close>: the DPR sizer is applied again when \<open>fullscreen\<close> is set.\<close>

definition apply_sizer :: "platform \<Rightarrow> sandbox \<Rightarrow> sandbox" where
  "apply_sizer p s =
     (if fullscreen s
      then (case enableDprSizer p s of
              Inl e \<Rightarrow> s\<lparr>warnings := warnings s @ [(''[sandbox] dpr sizer enable failed:'', e)]\<rparr>
            | Inr s' \<Rightarrow> s')
      else s)"

text \<open>
  The \<open>for (const child of nodes)\<close> loop from its head, up to the next \<open>await\<close>, and the
  code after the loop when there is no child left.
\<close>

definition inject_loop ::
  "platform \<Rightarrow> nat \<Rightarrow> string \<Rightarrow> string \<Rightarrow> string \<Rightarrow> node list \<Rightarrow> script_unit list \<Rightarrow> sandbox \<Rightarrow> sandbox" where
  "inject_loop p currentTicket sl ep baseUrl nodes scriptsBucket s =
     (case nodes of
        child # rest \<Rightarrow>
          (if ticket s \<noteq> currentTicket then settle_inject currentTicket sl ep None s
           else s\<lparr>tasks := (tasks s)(currentTicket \<mapsto>
                      AwaitClone sl ep baseUrl child rest scriptsBucket)\<rparr>)
      | [] \<Rightarrow>
          (if ticket s \<noteq> currentTicket then settle_inject currentTicket sl ep None s
           else (case run_scripts p currentTicket scriptsBucket s of
                   (Some e, s') \<Rightarrow> settle_inject currentTicket sl ep (Some e) s'
                 | (None, s') \<Rightarrow> settle_inject currentTicket sl ep None (apply_sizer p s'))))"

definition injectHtml ::
  "platform \<Rightarrow> string \<Rightarrow> string \<Rightarrow> nat \<Rightarrow> string \<Rightarrow> string \<Rightarrow> sandbox \<Rightarrow> sandbox" where
  "injectHtml p html baseUrl currentTicket sl ep s =
     (if phase s \<noteq> Mounted then settle_inject currentTicket sl ep None s
      else inject_loop p currentTicket sl ep baseUrl (parseFromString p html) [] (prepare_root s))"

text \<open>The continuation of the loop when \<open>cloneNodeTree\<close> of the current child has settled.\<close>

definition resume_clone ::
  "platform \<Rightarrow> nat \<Rightarrow> string \<Rightarrow> string \<Rightarrow> string \<Rightarrow> node \<Rightarrow> node list \<Rightarrow> script_unit list \<Rightarrow>
   sandbox \<Rightarrow> sandbox" where
  "resume_clone p currentTicket sl ep baseUrl child rest scriptsBucket s =
     (case cloneNodeTree p baseUrl child scriptsBucket of
        Inl e \<Rightarrow> settle_inject currentTicket sl ep (Some e) s
      | Inr (cloned, bucket') \<Rightarrow>
          inject_loop p currentTicket sl ep baseUrl rest bucket'
            (case cloned of None \<Rightarrow> s | Some c \<Rightarrow> s\<lparr>childNodes := childNodes s @ [c]\<rparr>))"

subsection \<open>Loader\<close>

text \<open>The \<open>catch\<close> block of \<open>loadProject\<close>.\<close>

definition on_catch :: "nat \<Rightarrow> string \<Rightarrow> string \<Rightarrow> js_error \<Rightarrow> sandbox \<Rightarrow> sandbox" where
  "on_catch currentTicket sl ep e s =
     (if e = AbortError then s
      else if ticket s = currentTicket
      then emit Failed (createEventPayload sl ep currentTicket (ErrorMessage (message e))) (clearShadow s)
      else s)"

definition finish :: "nat \<Rightarrow> sandbox \<Rightarrow> sandbox" where
  "finish t s = s\<lparr>tasks := (tasks s)(t := None)\<rparr>"

text \<open>\<open>loadProject\<close> up to \<open>await fetch(...)\<close>.\<close>

definition loadProject :: "string \<Rightarrow> string \<Rightarrow> nat \<Rightarrow> sandbox \<Rightarrow> sandbox" where
  "loadProject sl ep currentTicket s =
     (let s1 = (case activeController s of
                  Some c \<Rightarrow> s\<lparr>aborted := insert c (aborted s)\<rparr>
                | None \<Rightarrow> s);
          s2 = s1\<lparr>activeController := Some currentTicket\<rparr>;
          s3 = emit Loading (createEventPayload sl ep currentTicket NoExtra) s2
      in s3\<lparr>tasks := (tasks s3)(currentTicket \<mapsto> AwaitFetch sl ep)\<rparr>)"

text \<open>\<open>loadProject\<close> from the settled fetch to its next \<open>await\<close> or its end.\<close>

definition resume_fetch :: "platform \<Rightarrow> nat \<Rightarrow> string \<Rightarrow> string \<Rightarrow> sandbox \<Rightarrow> sandbox" where
  "resume_fetch p currentTicket sl ep s =
     (case fetch p ep of
        Inl m \<Rightarrow> on_catch currentTicket sl ep (TypeError m) (finish currentTicket s)
      | Inr r \<Rightarrow>
          (if \<not> ok r
           then on_catch currentTicket sl ep
                  (Error (''Unable to load project asset ('' @ show_nat (status r) @ '')''))
                  (finish currentTicket s)
           else (case response_text r of
                   Inl m \<Rightarrow> on_catch currentTicket sl ep (TypeError m) (finish currentTicket s)
                 | Inr html \<Rightarrow>
                     (case URL_new p ep (origin p) of
                        Inl m \<Rightarrow> on_catch currentTicket sl ep (TypeError m) (finish currentTicket s)
                      | Inr baseUrl \<Rightarrow> injectHtml p html (href baseUrl) currentTicket sl ep s))))"

text \<open>\<open>loadProject\<close> after \<open>await injectHtml(...)\<close>.\<close>

definition resume_inject :: "nat \<Rightarrow> string \<Rightarrow> string \<Rightarrow> js_error option \<Rightarrow> sandbox \<Rightarrow> sandbox" where
  "resume_inject currentTicket sl ep res s =
     (case res of
        None \<Rightarrow>
          (if ticket s = currentTicket
           then emit Loaded (createEventPayload sl ep currentTicket NoExtra) (finish currentTicket s)
           else finish currentTicket s)
      | Some e \<Rightarrow> on_catch currentTicket sl ep e (finish currentTicket s))"

text \<open>The callback of the \<open>watch\<close> on the descriptor.\<close>

definition on_change :: "string \<Rightarrow> string \<Rightarrow> sandbox \<Rightarrow> sandbox" where
  "on_change sl ep s =
     (let currentTicket = ticket s + 1;
          s1 = s\<lparr>ticket := currentTicket\<rparr>
      in if sl = [] then
           emit Failed
             (createEventPayload sl ep currentTicket
                (ErrorMessage ''Sandbox slug is missing. Cannot load project.''))
             (clearShadow s1)
         else if ep = [] then
           emit Loaded (createEventPayload sl ep currentTicket Empty) (clearShadow s1)
         else loadProject sl ep currentTicket s1)"

definition onBeforeUnmount :: "sandbox \<Rightarrow> sandbox" where
  "onBeforeUnmount s =
     (let s1 = s\<lparr>ticket := ticket s + 1\<rparr>;
          s2 = clearShadow s1;
          s3 = (case activeController s2 of
                  Some c \<Rightarrow> s2\<lparr>aborted := insert c (aborted s2), activeController := None\<rparr>
                | None \<Rightarrow> s2)
      in disableDprSizer s3)"

subsection \<open>The environment\<close>

text \<open>
  The component runs on one thread; between two of its synchronous runs the environment
  chooses what happens next: the host element is mounted, the descriptor changes, the
  \<open>fullscreen\<close> prop changes, the component is unmounted, a suspended load resumes,
  the aborted fetch of a load rejects, a timer or an animation frame fires, an event is
  dispatched, a resize observer reports.
\<close>

datatype env =
    Mount | Change string string | Fullscreen bool | Unmount | Resume nat | AbortSettle nat
  | Fire nat | Frame nat | Dispatch target string | Resize nat

definition run_callback :: "platform \<Rightarrow> callback \<Rightarrow> sandbox \<Rightarrow> sandbox" where
  "run_callback p cb s = snd (exec_actions p (body_of cb) s)"

text \<open>The browser calls the function it was handed; a guarded closure reads the mark.\<close>

definition run_handler :: "platform \<Rightarrow> handler \<Rightarrow> sandbox \<Rightarrow> sandbox" where
  "run_handler p f s =
     (case f of
        Direct cb \<Rightarrow> run_callback p cb s
      | Guarded cb \<Rightarrow> (if sandboxDisposed s then s else run_callback p cb s))"

definition fire :: "platform \<Rightarrow> nat \<Rightarrow> sandbox \<Rightarrow> sandbox" where
  "fire p h s =
     (case find (\<lambda>t. fst t = h) (timers (win s)) of
        None \<Rightarrow> s
      | Some (h', repeating, f) \<Rightarrow>
          run_handler p f
            (if repeating then s else s\<lparr>win := real_clearTimer h (win s)\<rparr>))"

definition frame_fires :: "platform \<Rightarrow> nat \<Rightarrow> sandbox \<Rightarrow> sandbox" where
  "frame_fires p h s =
     (case find (\<lambda>f. fst f = h) (frames (win s)) of
        None \<Rightarrow> s
      | Some (h', f) \<Rightarrow> run_handler p f (s\<lparr>win := real_cancelAnimationFrame h (win s)\<rparr>))"

definition dispatch :: "platform \<Rightarrow> target \<Rightarrow> string \<Rightarrow> sandbox \<Rightarrow> sandbox" where
  "dispatch p tg ty s =
     foldl (\<lambda>s' l. run_callback p (fst (snd (snd l))) s') s
       (filter (\<lambda>l. fst l = tg \<and> fst (snd l) = ty) (listeners (win s)))"

definition resize :: "platform \<Rightarrow> nat \<Rightarrow> sandbox \<Rightarrow> sandbox" where
  "resize p i s =
     (case find (\<lambda>ob. fst ob = i) (observers (win s)) of
        None \<Rightarrow> s
      | Some (i', cb) \<Rightarrow> run_callback p cb s)"

definition resume :: "platform \<Rightarrow> nat \<Rightarrow> sandbox \<Rightarrow> sandbox" where
  "resume p t s =
     (case tasks s t of
        None \<Rightarrow> s
      | Some (AwaitFetch sl ep) \<Rightarrow> resume_fetch p t sl ep s
      | Some (AwaitClone sl ep baseUrl child rest bucket) \<Rightarrow>
          resume_clone p t sl ep baseUrl child rest bucket s
      | Some (AwaitInject sl ep res) \<Rightarrow> resume_inject t sl ep res s)"

definition abort_settle :: "nat \<Rightarrow> sandbox \<Rightarrow> sandbox" where
  "abort_settle t s =
     (case tasks s t of
        Some (AwaitFetch sl ep) \<Rightarrow>
          (if t \<in> aborted s then on_catch t sl ep AbortError (finish t s) else s)
      | _ \<Rightarrow> s)"

fun step :: "platform \<Rightarrow> sandbox \<Rightarrow> env \<Rightarrow> sandbox" where
  "step p s Mount = (if phase s = Setup then s\<lparr>phase := Mounted\<rparr> else s)"
| "step p s (Change sl ep) = (if phase s = Unmounted then s else on_change sl ep s)"
| "step p s (Fullscreen b) =
     (if phase s = Unmounted \<or> b = fullscreen s then s
      else on_fullscreen p b (s\<lparr>fullscreen := b\<rparr>))"
| "step p s Unmount = (if phase s = Mounted then (onBeforeUnmount s)\<lparr>phase := Unmounted\<rparr> else s)"
| "step p s (Resume t) = resume p t s"
| "step p s (AbortSettle t) = abort_settle t s"
| "step p s (Fire h) = fire p h s"
| "step p s (Frame h) = frame_fires p h s"
| "step p s (Dispatch tg ty) = dispatch p tg ty s"
| "step p s (Resize i) = resize p i s"

definition run :: "platform \<Rightarrow> sandbox \<Rightarrow> env list \<Rightarrow> sandbox" where
  "run p s es = foldl (step p) s es"

subsection \<open>Notions of the specification\<close>

text \<open>
  A value carries a URI scheme when the text before its first colon is a letter followed
  by letters, digits, \<open>+\<close>, \<open>-\<close> or \<open>.\<close>. A value passes through the resolver when it
  is empty, fragment-only, carries a scheme, is protocol-relative or is a \<open>data:\<close> payload.
\<close>

definition is_scheme_char :: "char \<Rightarrow> bool" where
  "is_scheme_char c = (is_alpha c \<or> is_digit c \<or> c \<in> {CHR ''+'', CHR ''-'', CHR ''.''})"

definition carries_scheme :: "string \<Rightarrow> bool" where
  "carries_scheme v =
     (let sch = takeWhile (\<lambda>c. c \<noteq> CHR '':'') v
      in length sch < length v \<and> sch \<noteq> [] \<and> is_alpha (hd sch) \<and> list_all is_scheme_char (tl sch))"

definition passes_through :: "string \<Rightarrow> bool" where
  "passes_through v =
     (v = [] \<or> startsWith v ''#'' \<or> carries_scheme v \<or> startsWith v ''//'' \<or> startsWith v ''data:'')"

text \<open>
  The tag names of a tree, in document order. An element is a script element when its
  local name is \<open>script\<close>: for an HTML element the \<open>tagName\<close> is \<open>SCRIPT\<close>, for
  an element of inline SVG it is \<open>script\<close>. The script elements that the transformer
  reaches and takes for executable, in document order: it does not look inside a script
  element or a stylesheet link. The source of a script element: the body fetched from its
  \<open>src\<close>, or its inline text.
\<close>

fun tag_names :: "node \<Rightarrow> string list" where
  "tag_names (TextNode s) = []"
| "tag_names OtherNode = []"
| "tag_names (ElementNode tagName attrs kids) = tagName # concat (map tag_names kids)"

definition is_script_tag :: "string \<Rightarrow> bool" where
  "is_script_tag tagName = (ascii_lower tagName = ''script'')"

fun script_elements :: "node \<Rightarrow> node list" where
  "script_elements (TextNode s) = []"
| "script_elements OtherNode = []"
| "script_elements (ElementNode tagName attrs kids) =
     (if tagName = ''SCRIPT''
      then (if script_type attrs \<in> set JS_MIME_TYPES then [ElementNode tagName attrs kids] else [])
      else if tagName = ''LINK'' \<and> getAttribute attrs ''rel'' = Some ''stylesheet'' then []
      else concat (map script_elements kids))"

definition source_of :: "platform \<Rightarrow> string \<Rightarrow> node \<Rightarrow> string" where
  "source_of p baseUrl n =
     (case n of
        ElementNode tagName attrs kids \<Rightarrow>
          (case getAttribute attrs ''src'' of
             None \<Rightarrow> textContent n
           | Some src \<Rightarrow>
               (if src = [] then textContent n
                else (case fetch_script p src baseUrl of Inr body \<Rightarrow> body | Inl e \<Rightarrow> [])))
      | _ \<Rightarrow> [])"

text \<open>
  What running a function body leaves behind, read off the body: the values it records
  before its first exception, and that exception. The body that a ScriptUnit runs, whether
  it compiles, and the line that its failure writes to the console. The frame of a runner
  called on the shadow root.
\<close>

definition callable :: "jsval \<Rightarrow> bool" where
  "callable v = (case v of Wrapper tg prop \<Rightarrow> True | RealFunction tg prop \<Rightarrow> True | _ \<Rightarrow> False)"

fun writes :: "platform \<Rightarrow> action list \<Rightarrow> string list" where
  "writes p [] = []"
| "writes p (Record v # rest) = v # writes p rest"
| "writes p (Throw m # rest) = []"
| "writes p (Call rcv a cb # rest) =
     (if callable (lookup p rcv (prop_of a)) then writes p rest else [])"

fun thrown :: "platform \<Rightarrow> action list \<Rightarrow> js_error option" where
  "thrown p [] = None"
| "thrown p (Record v # rest) = thrown p rest"
| "thrown p (Throw m # rest) = Some (Error m)"
| "thrown p (Call rcv a cb # rest) =
     (if callable (lookup p rcv (prop_of a)) then thrown p rest else Some (not_callable rcv a))"

definition behaviour :: "platform \<Rightarrow> script_unit \<Rightarrow> action list" where
  "behaviour p entry =
     (case runner entry of
        Some r \<Rightarrow> r
      | None \<Rightarrow> (case compile p (use_strict @ preparedCode entry) of Inr r \<Rightarrow> r | Inl m \<Rightarrow> []))"

definition compiles :: "platform \<Rightarrow> script_unit \<Rightarrow> bool" where
  "compiles p entry =
     (runner entry \<noteq> None
      \<or> (case compile p (use_strict @ preparedCode entry) of Inr r \<Rightarrow> True | Inl m \<Rightarrow> False))"

definition logged :: "platform \<Rightarrow> script_unit \<Rightarrow> (string \<times> js_error) list" where
  "logged p entry =
     (case thrown p (behaviour p entry) of
        None \<Rightarrow> []
      | Some e \<Rightarrow> [(''[sandbox] script execution failed:'', e)])"

definition root_frame :: "platform \<Rightarrow> frame" where
  "root_frame p = \<lparr>this_value = ShadowRoot, arguments = runner_arguments p\<rparr>"

text \<open>
  The resource that a release action clears is still held. A window holds nothing when it
  has no timer, no frame, no listener and no observer.
\<close>

fun live :: "sandbox \<Rightarrow> release \<Rightarrow> bool" where
  "live s (ClearTimeout h) = (h \<in> fst ` set (timers (win s)))"
| "live s (ClearInterval h) = (h \<in> fst ` set (timers (win s)))"
| "live s (CancelAnimationFrame h) = (h \<in> fst ` set (frames (win s)))"
| "live s (RemoveEventListener tg ty cb capture) = ((tg, ty, cb, capture) \<in> set (listeners (win s)))"
| "live s (Disconnect i) = (i \<in> fst ` set (observers (win s)))"
| "live s DisableDprSizer = dprSizer s"

definition holds_nothing :: "realm \<Rightarrow> bool" where
  "holds_nothing w = (timers w = [] \<and> frames w = [] \<and> listeners w = [] \<and> observers w = [])"

text \<open>
  A body registers its listeners through the scope when neither it nor a callback that it
  hands out calls \<open>addEventListener\<close> as a bare identifier; a platform does when every
  body that it compiles does.
\<close>

fun scoped :: "action \<Rightarrow> bool"
  and scoped_callback :: "callback \<Rightarrow> bool"
  and scoped_list :: "action list \<Rightarrow> bool" where
  "scoped (Call rcv a cb) =
     (\<not> (rcv = Bare \<and> prop_of a = ''addEventListener'') \<and> scoped_callback cb)"
| "scoped (Record v) = True"
| "scoped (Throw m) = True"
| "scoped_callback (Callback n b) = scoped_list b"
| "scoped_list [] = True"
| "scoped_list (a # rest) = (scoped a \<and> scoped_list rest)"

definition scoped_platform :: "platform \<Rightarrow> bool" where
  "scoped_platform p = (\<forall>body acts. compile p body = Inr acts \<longrightarrow> scoped_list acts)"

text \<open>
  What a call through the scope is to do on the window: the real function is called with
  the script's callback, behind the guard for a timer or a frame. The release that
  matches the resource that the call creates in a given window.
\<close>

fun real_operation :: "target \<Rightarrow> api \<Rightarrow> callback \<Rightarrow> realm \<Rightarrow> realm" where
  "real_operation tg SetTimeout cb w = snd (real_setTimer False (Guarded cb) w)"
| "real_operation tg SetInterval cb w = snd (real_setTimer True (Guarded cb) w)"
| "real_operation tg RequestAnimationFrame cb w = snd (real_requestAnimationFrame (Guarded cb) w)"
| "real_operation tg (AddEventListener ty capture) cb w = real_addEventListener tg ty cb capture w"
| "real_operation tg NewResizeObserver cb w = snd (real_ResizeObserver cb w)"

fun matching_release :: "target \<Rightarrow> api \<Rightarrow> callback \<Rightarrow> realm \<Rightarrow> release" where
  "matching_release tg SetTimeout cb w = ClearTimeout (next_timer w)"
| "matching_release tg SetInterval cb w = ClearInterval (next_timer w)"
| "matching_release tg RequestAnimationFrame cb w = CancelAnimationFrame (next_frame w)"
| "matching_release tg (AddEventListener ty capture) cb w = RemoveEventListener tg ty cb capture"
| "matching_release tg NewResizeObserver cb w = Disconnect (next_observer w)"

definition schedules :: "api \<Rightarrow> bool" where
  "schedules a = (a = SetTimeout \<or> a = SetInterval \<or> a = RequestAnimationFrame)"



text \<open>The \<open>loaded\<close> and \<open>error\<close> events that carry a given ticket.\<close>

definition settled_for :: "nat \<Rightarrow> (kind \<times> payload) list \<Rightarrow> (kind \<times> payload) list" where
  "settled_for t evs = filter (\<lambda>ev. fst ev \<noteq> Loading \<and> ticketValue (snd ev) = t) evs"

subsection \<open>The protocol of the loader\<close>

text \<open>
  The part of the state that the ticket discipline is about: the phase, the ticket, the
  active controller, the aborted controllers, the emitted events and the suspended loads.
  The relation \<open>protocol\<close> lists the moves that the component makes on it: nothing; the
  mount; a descriptor change that settles at once (no slug, no entry point); a descriptor
  change that starts a load; the unmount; a suspended load that moves to its next
  \<open>await\<close>; a current load that ends with its one event; a stale load that ends
  silently. \<open>ainv\<close> is the invariant that these moves keep.
\<close>

type_synonym control =
  "phase \<times> nat \<times> nat option \<times> nat set \<times> (kind \<times> payload) list \<times> (nat \<Rightarrow> stage option)"

definition ctl :: "sandbox \<Rightarrow> control" where
  "ctl s = (phase s, ticket s, activeController s, aborted s, emitted s, tasks s)"

definition aborting :: "stage \<Rightarrow> bool" where
  "aborting st = (case st of AwaitInject sl ep (Some AbortError) \<Rightarrow> True | _ \<Rightarrow> False)"

inductive protocol :: "control \<Rightarrow> control \<Rightarrow> bool" where
  idle: "protocol c c"
| mount: "protocol (Setup, t, ac, ab, ev, ts) (Mounted, t, ac, ab, ev, ts)"
| settle_now:
    "ph \<noteq> Unmounted \<Longrightarrow> k \<noteq> Loading \<Longrightarrow> ticketValue pl = Suc t \<Longrightarrow>
     protocol (ph, t, ac, ab, ev, ts) (ph, Suc t, ac, ab, ev @ [(k, pl)], ts)"
| start_load:
    "ph \<noteq> Unmounted \<Longrightarrow> ticketValue pl = Suc t \<Longrightarrow>
     protocol (ph, t, ac, ab, ev, ts)
       (ph, Suc t, Some (Suc t), ab \<union> set_option ac, ev @ [(Loading, pl)],
        ts(Suc t \<mapsto> AwaitFetch sl ep))"
| unmount:
    "protocol (Mounted, t, ac, ab, ev, ts) (Unmounted, Suc t, None, ab \<union> set_option ac, ev, ts)"
| progress:
    "ts u \<noteq> None \<Longrightarrow> \<not> aborting st \<Longrightarrow>
     protocol (ph, t, ac, ab, ev, ts) (ph, t, ac, ab, ev, ts(u \<mapsto> st))"
| settle_task:
    "ts t \<noteq> None \<Longrightarrow> k \<noteq> Loading \<Longrightarrow> ticketValue pl = t \<Longrightarrow>
     protocol (ph, t, ac, ab, ev, ts) (ph, t, ac, ab, ev @ [(k, pl)], ts(t := None))"
| drop_stale:
    "u \<noteq> t \<Longrightarrow> protocol (ph, t, ac, ab, ev, ts) (ph, t, ac, ab, ev, ts(u := None))"

fun ainv :: "control \<Rightarrow> bool" where
  "ainv (ph, t, ac, ab, ev, ts) =
     ((\<forall>e \<in> set ev. ticketValue (snd e) \<le> t) \<and>
      sorted (map (\<lambda>e. ticketValue (snd e)) ev) \<and>
      (\<forall>u. ts u \<noteq> None \<longrightarrow> u \<le> t \<and> settled_for u ev = []) \<and>
      (\<forall>u. length (settled_for u ev) \<le> 1) \<and>
      (\<forall>u \<in> ab. u < t) \<and>
      (\<forall>u \<in> set_option ac. u \<le> t) \<and>
      (\<forall>u. ts u \<noteq> None \<longrightarrow> \<not> aborting (the (ts u))) \<and>
      (ph \<noteq> Unmounted \<and> 0 < t \<and> ts t = None \<longrightarrow> length (settled_for t ev) = 1))"

subsection \<open>An example platform\<close>

text \<open>
  A small instance of the platform, used to run the loader on concrete inputs.

  Its URL constructor knows \<open>http\<close> and \<open>https\<close> only. A value with one of these
  schemes is parsed as it is; any other value needs a base with one of them, and the
  constructor throws when the base has none. A value that starts with \<open>/\<close> replaces
  the path of the base, any other value is joined onto the directory of that path; the
  segments \<open>.\<close> and \<open>..\<close> are resolved; query and fragment are those of the value.
  On values and bases of this kind, made of characters that need no escaping, it gives
  what the URL standard gives.
\<close>

definition web_scheme :: "string \<Rightarrow> string option" where
  "web_scheme u =
     (if startsWith u ''http://'' then Some ''http://''
      else if startsWith u ''https://'' then Some ''https://''
      else None)"

definition before :: "(char \<Rightarrow> bool) \<Rightarrow> string \<Rightarrow> string" where
  "before stop u = takeWhile (\<lambda>c. \<not> stop c) u"

definition from_first :: "(char \<Rightarrow> bool) \<Rightarrow> string \<Rightarrow> string" where
  "from_first stop u = dropWhile (\<lambda>c. \<not> stop c) u"

definition ends_path :: "char \<Rightarrow> bool" where
  "ends_path c = (c = CHR ''?'' \<or> c = CHR ''#'')"

definition ends_host :: "char \<Rightarrow> bool" where
  "ends_host c = (c = CHR ''/'' \<or> ends_path c)"

text \<open>The segments of a path without \<open>.\<close> and \<open>..\<close>; the first argument is the
  stack of the segments kept so far.\<close>

fun remove_dots :: "string list \<Rightarrow> string list \<Rightarrow> string list" where
  "remove_dots kept [] = rev kept"
| "remove_dots kept (seg # rest) =
     (if seg = ''.'' then (if rest = [] then rev ([] # kept) else remove_dots kept rest)
      else if seg = ''..''
      then (if rest = [] then rev ([] # tl kept) else remove_dots (tl kept) rest)
      else remove_dots (seg # kept) rest)"

definition normal_path :: "string \<Rightarrow> string" where
  "normal_path path = CHR ''/'' # join ''/'' (remove_dots [] (split_on CHR ''/'' (tl path)))"

definition directory :: "string \<Rightarrow> string" where
  "directory path = rev (dropWhile (\<lambda>c. c \<noteq> CHR ''/'') (rev path))"

definition url_of :: "string \<Rightarrow> string \<Rightarrow> string \<Rightarrow> string \<Rightarrow> url" where
  "url_of site path query fragment =
     (let q = (if query = ''?'' then [] else query);
          f = (if fragment = ''#'' then [] else fragment)
      in \<lparr>href = site @ path @ q @ f, pathname = path, search = q, hash = f\<rparr>)"

text \<open>The scheme with the host, and the path, of a URL with one of the two schemes.\<close>

definition site_of :: "string \<Rightarrow> string \<Rightarrow> string" where
  "site_of sch u = sch @ before ends_host (drop (length sch) u)"

definition path_of :: "string \<Rightarrow> string \<Rightarrow> string" where
  "path_of sch u =
     (let p = before ends_path (from_first ends_host (drop (length sch) u))
      in if p = [] then ''/'' else p)"

definition demo_URL :: url_constructor where
  "demo_URL v b =
     (let rest = from_first ends_path v;
          query = before (\<lambda>c. c = CHR ''#'') rest;
          fragment = from_first (\<lambda>c. c = CHR ''#'') rest
      in case web_scheme v of
           Some sch \<Rightarrow> Inr (url_of (site_of sch v) (normal_path (path_of sch v)) query fragment)
         | None \<Rightarrow>
             (case web_scheme b of
                None \<Rightarrow> Inl ''Invalid base URL''
              | Some sch \<Rightarrow>
                  (let ref = before ends_path v;
                       path = (if startsWith ref ''/'' then ref
                               else directory (path_of sch b) @ ref)
                   in Inr (url_of (site_of sch b) (normal_path path) query fragment))))"

text \<open>
  A server with four documents, a parser and a compiler that know their texts. The
  document \<open>three\<close> has an inline script, a script with a \<open>src\<close>, a script of a type
  that is not JavaScript and a last inline script; the second script throws. The document
  \<open>clock\<close> starts an interval and registers a listener through \<open>window\<close>, and sets
  a timeout with a bare call. The document \<open>drawing\<close> has two script elements inside
  inline SVG, the second of a type that is not JavaScript. The document \<open>leak\<close>, known to the platform \<open>leaky\<close> only, registers
  a listener with a bare call.
\<close>

definition demo_fetch :: "string \<Rightarrow> string + response" where
  "demo_fetch u =
     (if u = ''/projects/demo/index.html''
      then Inr \<lparr>ok = True, status = 200, response_text = Inr ''three''\<rparr>
      else if u = ''/projects/demo/b.js''
      then Inr \<lparr>ok = True, status = 200, response_text = Inr ''B''\<rparr>
      else if u = ''/projects/clock/index.html''
      then Inr \<lparr>ok = True, status = 200, response_text = Inr ''clock''\<rparr>
      else if u = ''/projects/drawing/index.html''
      then Inr \<lparr>ok = True, status = 200, response_text = Inr ''drawing''\<rparr>
      else if u = ''/projects/leak/index.html''
      then Inr \<lparr>ok = True, status = 200, response_text = Inr ''leak''\<rparr>
      else if u = ''/projects/offline/index.html'' then Inl ''Failed to fetch''
      else Inr \<lparr>ok = False, status = 404, response_text = Inr ''Not found''\<rparr>)"

definition demo_parse :: "string \<Rightarrow> node list" where
  "demo_parse html =
     (if html = ''three'' then
        [ElementNode ''SCRIPT'' [] [TextNode ''A''],
         ElementNode ''DIV'' [(''class'', ''app'')]
           [ElementNode ''IMG'' [(''src'', ''a/b.png'')] [],
            ElementNode ''SCRIPT'' [(''src'', ''b.js'')] [],
            ElementNode ''SCRIPT'' [(''type'', ''text/x-not-js'')] [TextNode ''A'']],
         ElementNode ''SCRIPT'' [(''type'', '' Text/JavaScript '')] [TextNode ''C'']]
      else if html = ''clock'' then
        [ElementNode ''P'' [] [TextNode ''clock''],
         ElementNode ''SCRIPT'' [] [TextNode ''T'']]
      else if html = ''drawing'' then
        [ElementNode ''svg'' [(''viewBox'', ''0 0 10 10'')]
           [ElementNode ''circle'' [(''r'', ''4'')] [],
            ElementNode ''script'' [] [TextNode ''A''],
            ElementNode ''script'' [(''type'', ''text/x-not-js'')] [TextNode ''C'']]]
      else [])"

definition demo_compile :: "string \<Rightarrow> string + action list" where
  "demo_compile body =
     (if body = use_strict @ ''A'' then Inr [Record ''1'']
      else if body = use_strict @ ''B'' then Inr [Record ''2'', Throw ''boom'', Record ''unreached'']
      else if body = use_strict @ ''C'' then Inr [Record ''3'']
      else if body = use_strict @ ''T'' then
        Inr [Call ViaWindow SetInterval (Callback 1 [Record ''tick'']),
             Call ViaWindow (AddEventListener ''resize'' False)
               (Callback 2 [Record ''resized'', Call ViaWindow SetTimeout (Callback 3 [Record ''late''])]),
             Call Bare SetTimeout (Callback 4 [Record ''bare''])]
      else Inl ''Unexpected identifier'')"

definition demo :: platform where
  "demo = \<lparr>URL_new = demo_URL, fetch = demo_fetch, parseFromString = demo_parse,
           origin = ''http://localhost'', compile = demo_compile, hasResizeObserver = True,
           invalidElementName = (\<lambda>n. None), invalidAttributeName = (\<lambda>n. None)\<rparr>"

definition leaky_parse :: "string \<Rightarrow> node list" where
  "leaky_parse html =
     (if html = ''leak'' then [ElementNode ''SCRIPT'' [] [TextNode ''L'']] else demo_parse html)"

definition leaky_compile :: "string \<Rightarrow> string + action list" where
  "leaky_compile body =
     (if body = use_strict @ ''L'' then
        Inr [Call Bare (AddEventListener ''resize'' False)
               (Callback 5 [Record ''leak'', Call ViaWindow SetTimeout (Callback 6 [Record ''late''])])]
      else demo_compile body)"

definition leaky :: platform where
  "leaky = demo\<lparr>parseFromString := leaky_parse, compile := leaky_compile\<rparr>"

definition demo_base :: string where
  "demo_base = ''http://localhost/projects/demo/index.html''"

definition demo_bucket :: "script_unit list" where
  "demo_bucket = [\<lparr>code = ''A'', runner = None\<rparr>, \<lparr>code = ''B'', runner = None\<rparr>,
                  \<lparr>code = ''C'', runner = None\<rparr>]"

definition three_first :: node where
  "three_first = ElementNode ''SCRIPT'' [] [TextNode ''A'']"

definition three_rest :: "node list" where
  "three_rest =
     [ElementNode ''DIV'' [(''class'', ''app'')]
        [ElementNode ''IMG'' [(''src'', ''a/b.png'')] [],
         ElementNode ''SCRIPT'' [(''src'', ''b.js'')] [],
         ElementNode ''SCRIPT'' [(''type'', ''text/x-not-js'')] [TextNode ''A'']],
      ElementNode ''SCRIPT'' [(''type'', '' Text/JavaScript '')] [TextNode ''C'']]"

definition three_rendered :: "node list" where
  "three_rendered =
     [ElementNode ''DIV'' [(''class'', ''app'')]
        [ElementNode ''IMG'' [(''src'', ''/projects/demo/a/b.png'')] []]]"

text \<open>
  Schedules of the environment: a load of \<open>three\<close> that runs to its end, the same load
  up to the fetched entry document, loads of \<open>clock\<close>, \<open>drawing\<close> and \<open>leak\<close>, a load
  that is superseded by a second one before its fetch settles, and a load of \<open>three\<close>
  that waits for the script of its second child while \<open>clock\<close> is selected and
  loaded; \<open>overlap_start\<close> is that schedule up to the first child of \<open>clock\<close>.
\<close>

definition demo_load :: "env list" where
  "demo_load = [Mount, Change ''demo'' ''/projects/demo/index.html'',
                Resume 1, Resume 1, Resume 1, Resume 1, Resume 1]"

definition demo_fetched :: "env list" where
  "demo_fetched = [Mount, Change ''demo'' ''/projects/demo/index.html'', Resume 1]"

definition clock_load :: "env list" where
  "clock_load = [Mount, Change ''clock'' ''/projects/clock/index.html'',
                 Resume 1, Resume 1, Resume 1, Resume 1]"

definition drawing_load :: "env list" where
  "drawing_load = [Mount, Change ''drawing'' ''/projects/drawing/index.html'',
                   Resume 1, Resume 1, Resume 1]"

definition leak_load :: "env list" where
  "leak_load = [Mount, Change ''leak'' ''/projects/leak/index.html'',
                Resume 1, Resume 1, Resume 1]"

definition superseded_load :: "env list" where
  "superseded_load = [Mount, Change ''demo'' ''/projects/demo/index.html'',
                      Change ''clock'' ''/projects/clock/index.html'', AbortSettle 1,
                      Resume 2, Resume 2, Resume 2, Resume 2]"

definition overlap_start :: "env list" where
  "overlap_start =
     [Mount, Change ''demo'' ''/projects/demo/index.html'', Resume 1, Resume 1,
      Change ''clock'' ''/projects/clock/index.html'', Resume 2, Resume 2]"

definition overlapping_loads :: "env list" where
  "overlapping_loads = overlap_start @ [Resume 1, Resume 2, Resume 2, Resume 1]"

section \<open>Properties\<close>

subsection \<open>URL resolver\<close>

lemma colon_not_scheme_char: "\<not> is_scheme_char CHR '':''"
  by (simp add: is_scheme_char_def is_alpha_def is_digit_def is_upper_def is_lower_def code_unit_def)

lemma colon_not_alpha: "\<not> is_alpha CHR '':''"
  by (simp add: is_alpha_def is_upper_def is_lower_def code_unit_def)

lemma scheme_tail_iff:
  "scheme_tail cs =
     (length (takeWhile (\<lambda>c. c \<noteq> CHR '':'') cs) < length cs \<and>
      list_all is_scheme_char (takeWhile (\<lambda>c. c \<noteq> CHR '':'') cs))"
  by (induction cs) (auto simp: is_scheme_char_def)

lemma scheme_or_slashes_iff: "scheme_or_slashes v = (carries_scheme v \<or> startsWith v ''//'')"
proof (cases v)
  case Nil
  then show ?thesis by (simp add: scheme_or_slashes_def carries_scheme_def)
next
  case (Cons c cs)
  show ?thesis
  proof (cases "c = CHR '':''")
    case True
    with Cons show ?thesis
      by (simp add: scheme_or_slashes_def carries_scheme_def colon_not_alpha)
  next
    case False
    with Cons show ?thesis
      by (auto simp: scheme_or_slashes_def carries_scheme_def scheme_tail_iff)
  qed
qed

lemma resolveUrl_eq:
  "resolveUrl U v baseUrl =
     (if passes_through v then Inr v
      else (case U v baseUrl of
              Inl m \<Rightarrow> Inl (TypeError m)
            | Inr a \<Rightarrow> Inr (pathname a @ search a @ hash a)))"
  by (simp add: resolveUrl_def passes_through_def isExternal_def scheme_or_slashes_iff)

lemmas char_class_defs =
  startsWith_def is_alpha_def is_upper_def is_lower_def code_unit_def is_digit_def is_scheme_char_def

text \<open>
  C9 (amended). \<open>resolveUrl\<close> returns the value unchanged exactly when it is empty,
  starts with \<open>#\<close>, carries a URI scheme, is protocol-relative or is a \<open>data:\<close>
  payload; every other value is handed to the \<open>URL\<close> constructor with the base, and
  the result is the path, query and fragment of the parsed URL, while a \<open>TypeError\<close>
  of the constructor propagates. Whatever the base, \<open>https://x.com/c.png\<close> and
  \<open>data:image/png;base64,AAAA\<close> come back unchanged. With the absolute base
  \<open>http://localhost/projects/demo/\<close>, and with the base that the loader makes from
  the entry point \<open>/projects/demo/index.html\<close> and the origin, \<open>a/b.png\<close> comes
  back as \<open>/projects/demo/a/b.png\<close>.
\<close>

theorem resolveUrl_contract:
  "resolveUrl U v baseUrl =
     (if passes_through v then Inr v
      else (case U v baseUrl of
              Inl m \<Rightarrow> Inl (TypeError m)
            | Inr a \<Rightarrow> Inr (pathname a @ search a @ hash a)))
   \<and> resolveUrl U ''https://x.com/c.png'' baseUrl = Inr ''https://x.com/c.png''
   \<and> resolveUrl U ''data:image/png;base64,AAAA'' baseUrl = Inr ''data:image/png;base64,AAAA''
   \<and> resolveUrl demo_URL ''a/b.png'' ''http://localhost/projects/demo/'' = Inr ''/projects/demo/a/b.png''
   \<and> demo_URL ''/projects/demo/index.html'' ''http://localhost''
        = Inr \<lparr>href = ''http://localhost/projects/demo/index.html'',
                pathname = ''/projects/demo/index.html'', search = [], hash = []\<rparr>
   \<and> resolveUrl demo_URL ''a/b.png'' ''http://localhost/projects/demo/index.html''
        = Inr ''/projects/demo/a/b.png''"
proof -
  have "resolveUrl U ''https://x.com/c.png'' baseUrl = Inr ''https://x.com/c.png''"
    by (simp add: resolveUrl_def isExternal_def scheme_or_slashes_def char_class_defs)
  moreover have "resolveUrl U ''data:image/png;base64,AAAA'' baseUrl
      = Inr ''data:image/png;base64,AAAA''"
    by (simp add: resolveUrl_def isExternal_def scheme_or_slashes_def char_class_defs)
  moreover have "resolveUrl demo_URL ''a/b.png'' ''http://localhost/projects/demo/''
      = Inr ''/projects/demo/a/b.png''"
    by code_simp
  moreover have "demo_URL ''/projects/demo/index.html'' ''http://localhost''
        = Inr \<lparr>href = ''http://localhost/projects/demo/index.html'',
                pathname = ''/projects/demo/index.html'', search = [], hash = []\<rparr>"
    by code_simp
  moreover have "resolveUrl demo_URL ''a/b.png'' ''http://localhost/projects/demo/index.html''
        = Inr ''/projects/demo/a/b.png''"
    by code_simp
  ultimately show ?thesis
    using resolveUrl_eq [of U v baseUrl] by simp
qed

text \<open>
  The claim as it was stated takes \<open>/projects/demo/\<close> itself for the base. That string
  is not an absolute URL: the constructor throws, and \<open>resolveUrl\<close> throws with it.
\<close>

theorem relative_base_throws:
  "\<not> passes_through ''a/b.png''
   \<and> demo_URL ''a/b.png'' ''/projects/demo/'' = Inl ''Invalid base URL''
   \<and> resolveUrl demo_URL ''a/b.png'' ''/projects/demo/'' = Inl (TypeError ''Invalid base URL'')"
  by code_simp

subsection \<open>Document transformer\<close>

lemma empty_type_is_js: "[] \<in> set JS_MIME_TYPES"
  by (simp add: JS_MIME_TYPES_def)

lemma clone_script_bucket:
  "clone_script p b attrs kids bucket = Inr (c, bucket') \<Longrightarrow>
   c = None \<and>
   bucket' = bucket @ map (\<lambda>e. \<lparr>code = source_of p b e, runner = None\<rparr>)
                        (script_elements (ElementNode ''SCRIPT'' attrs kids))"
  by (auto simp: clone_script_def source_of_def empty_type_is_js
      split: option.splits sum.splits if_splits)

lemma clone_bucket:
  "cloneNodeTree p b n bucket = Inr (c, bucket') \<Longrightarrow>
     bucket' = bucket @ map (\<lambda>e. \<lparr>code = source_of p b e, runner = None\<rparr>) (script_elements n)"
  "cloneChildren p b ns bucket = Inr (outs, bucket') \<Longrightarrow>
     bucket' = bucket @ map (\<lambda>e. \<lparr>code = source_of p b e, runner = None\<rparr>)
                          (concat (map script_elements ns))"
proof (induction p b n bucket and p b ns bucket arbitrary: c bucket' and outs bucket'
       rule: cloneNodeTree_cloneChildren.induct)
  case (1 p baseUrl s bucket)
  then show ?case by auto
next
  case (2 p baseUrl bucket)
  then show ?case by auto
next
  case (3 p baseUrl tagName attrs kids bucket)
  show ?case
  proof (cases "tagName = ''SCRIPT''")
    case True
    with "3.prems" clone_script_bucket [of p baseUrl attrs kids bucket c bucket']
    show ?thesis by simp
  next
    case notscript: False
    show ?thesis
    proof (cases "tagName = ''LINK'' \<and> getAttribute attrs ''rel'' = Some ''stylesheet''")
      case True
      with notscript "3.prems" show ?thesis
        by (auto split: sum.splits)
    next
      case False
      with notscript "3.prems" obtain tag a cs where
        ta: "element_with p (toLowerCase tagName) tagName attrs baseUrl = Inr (tag, a)" and
        cc: "cloneChildren p baseUrl kids bucket = Inr (cs, bucket')"
        by (auto split: sum.splits prod.splits)
      from "3.IH" [OF notscript False ta refl cc] notscript False show ?thesis by auto
    qed
  qed
next
  case (4 p baseUrl bucket)
  then show ?case by simp
next
  case (5 p baseUrl child rest bucket)
  from "5.prems" obtain c b1 cs where
    c1: "cloneNodeTree p baseUrl child bucket = Inr (c, b1)" and
    c2: "cloneChildren p baseUrl rest b1 = Inr (cs, bucket')"
    by (auto split: sum.splits prod.splits)
  from "5.IH"(1) [OF c1] "5.IH"(2) [OF c1 refl c2] show ?case by simp
qed

text \<open>
  What the transformer does with an HTML script element, one whose \<open>tagName\<close> is
  \<open>SCRIPT\<close>: its clone is \<open>null\<close>, and with a type that is not JavaScript it
  yields no ScriptUnit.
\<close>

lemma html_script_never_rendered:
  "(script_type attrs \<noteq> [] \<and> script_type attrs \<notin> set JS_MIME_TYPES \<longrightarrow>
      cloneNodeTree p b (ElementNode ''SCRIPT'' attrs kids) bucket = Inr (None, bucket))
   \<and> (\<forall>r. cloneNodeTree p b (ElementNode ''SCRIPT'' attrs kids) bucket = Inr r \<longrightarrow> fst r = None)"
  using clone_script_bucket [of p b attrs kids bucket]
  by (auto simp: clone_script_def)

text \<open>
  C7. A script element of inline SVG has the \<open>tagName\<close> \<open>script\<close>, which is not the
  string \<open>SCRIPT\<close> that \<open>cloneNodeTree\<close> compares with. The transformer takes
  it for an ordinary element: it creates an HTML element of the name \<open>script\<close>, copies
  the text into it and returns it, whatever its type, and no ScriptUnit is made. After the
  load of \<open>drawing\<close> both script elements stand in the root, and none of them has run
  in the instrumented scope.
\<close>

theorem svg_script_is_rendered:
  "is_script_tag ''script''
   \<and> script_type [(''type'', ''text/x-not-js'')] \<notin> set JS_MIME_TYPES
   \<and> cloneChildren demo ''http://localhost/projects/drawing/index.html'' (demo_parse ''drawing'') []
       = Inr ([ElementNode ''SVG'' [(''viewbox'', ''0 0 10 10'')]
                 [ElementNode ''CIRCLE'' [(''r'', ''4'')] [],
                  ElementNode ''SCRIPT'' [] [TextNode ''A''],
                  ElementNode ''SCRIPT'' [(''type'', ''text/x-not-js'')] [TextNode ''C'']]], [])
   \<and> childNodes (run demo initial drawing_load)
       = [defaultStyle,
          ElementNode ''SVG'' [(''viewbox'', ''0 0 10 10'')]
            [ElementNode ''CIRCLE'' [(''r'', ''4'')] [],
             ElementNode ''SCRIPT'' [] [TextNode ''A''],
             ElementNode ''SCRIPT'' [(''type'', ''text/x-not-js'')] [TextNode ''C'']]]
   \<and> invocations (run demo initial drawing_load) = []
   \<and> map fst (emitted (run demo initial drawing_load)) = [Loading, Loaded]"
  by code_simp

text \<open>No exception of the transformer is an \<open>AbortError\<close>: its fetches carry no signal.\<close>

lemma resolveUrl_no_abort: "resolveUrl U v b \<noteq> Inl AbortError"
  by (simp add: resolveUrl_def split: sum.splits)

lemma map_throwing_no_abort:
  "(\<And>x. f x \<noteq> Inl AbortError) \<Longrightarrow> map_throwing f xs \<noteq> Inl AbortError"
  by (induction xs) (auto split: sum.splits)

lemma srcset_candidate_no_abort: "srcset_candidate U b c \<noteq> Inl AbortError"
  using resolveUrl_no_abort [of U _ b]
  by (auto simp: srcset_candidate_def Let_def split: sum.splits)

lemma normaliseSrcSet_no_abort: "normaliseSrcSet U v b \<noteq> Inl AbortError"
  using map_throwing_no_abort [of "srcset_candidate U b", OF srcset_candidate_no_abort]
  by (auto simp: normaliseSrcSet_def split: sum.splits)

lemma setAttribute_no_abort: "setAttribute p name v attrs \<noteq> Inl AbortError"
  by (simp add: setAttribute_def split: option.splits)

lemma copy_attributes_no_abort: "copy_attributes p target source \<noteq> Inl AbortError"
  using setAttribute_no_abort
  by (induction p target source rule: copy_attributes.induct) (auto split: sum.splits)

lemma resolve_attributes_no_abort: "resolve_attributes p b source cands target \<noteq> Inl AbortError"
  using resolveUrl_no_abort [of "URL_new p" _ b] normaliseSrcSet_no_abort [of "URL_new p" _ b]
    setAttribute_no_abort [of p]
  by (induction cands arbitrary: target) (auto split: option.splits sum.splits)

lemma transferAttributes_no_abort: "transferAttributes p target tagName source b \<noteq> Inl AbortError"
  using resolve_attributes_no_abort copy_attributes_no_abort
  by (auto simp: transferAttributes_def split: option.splits sum.splits)

lemma element_with_no_abort: "element_with p name tagName source b \<noteq> Inl AbortError"
  using transferAttributes_no_abort [of p "[]" tagName source b]
  by (auto simp: element_with_def createElement_def split: option.splits sum.splits)

lemma fetch_script_no_abort: "fetch_script p src b \<noteq> Inl AbortError"
  using resolveUrl_no_abort [of "URL_new p" src b]
  by (auto simp: fetch_script_def split: sum.splits)

lemma clone_script_no_abort: "clone_script p b attrs kids bucket \<noteq> Inl AbortError"
  using fetch_script_no_abort [of p _ b]
  by (auto simp: clone_script_def split: option.splits sum.splits)

lemma clone_link_no_abort: "clone_link p b tagName attrs \<noteq> Inl AbortError"
  using element_with_no_abort [of p _ tagName attrs b] setAttribute_no_abort [of p]
  by (auto simp: clone_link_def split: sum.splits prod.splits)

lemma cloneNodeTree_no_abort:
  "cloneNodeTree p b n bucket \<noteq> Inl AbortError"
  "cloneChildren p b ns bucket \<noteq> Inl AbortError"
proof (induction p b n bucket and p b ns bucket rule: cloneNodeTree_cloneChildren.induct)
  case (3 p baseUrl tagName attrs kids bucket)
  show ?case
  proof (cases "tagName = ''SCRIPT''")
    case True
    with clone_script_no_abort [of p baseUrl attrs kids bucket] show ?thesis by simp
  next
    case notscript: False
    show ?thesis
    proof (cases "tagName = ''LINK'' \<and> getAttribute attrs ''rel'' = Some ''stylesheet''")
      case True
      with notscript clone_link_no_abort [of p baseUrl tagName attrs] show ?thesis
        by (auto split: sum.splits)
    next
      case False
      show ?thesis
      proof (cases "element_with p (toLowerCase tagName) tagName attrs baseUrl")
        case (Inl e)
        with notscript False element_with_no_abort [of p "toLowerCase tagName" tagName attrs baseUrl]
        show ?thesis by auto
      next
        case (Inr r)
        obtain tag a where r: "r = (tag, a)" by (cases r)
        from "3.IH" [OF notscript False Inr [unfolded r] refl] notscript False Inr r
        show ?thesis by (auto split: sum.splits)
      qed
    qed
  qed
next
  case (5 p baseUrl child rest bucket)
  then show ?case by (auto split: sum.splits prod.splits)
qed simp_all

subsection \<open>The protocol keeps its invariant\<close>

lemma settled_for_append [simp]:
  "settled_for t (xs @ ys) = settled_for t xs @ settled_for t ys"
  by (simp add: settled_for_def)

lemma settled_for_Nil [simp]: "settled_for t [] = []"
  by (simp add: settled_for_def)

lemma settled_for_single [simp]:
  "settled_for t [(k, pl)] = (if k \<noteq> Loading \<and> ticketValue pl = t then [(k, pl)] else [])"
  by (simp add: settled_for_def)

lemma settled_for_bound:
  "\<forall>e \<in> set ev. ticketValue (snd e) \<le> t \<Longrightarrow> t < u \<Longrightarrow> settled_for u ev = []"
  by (auto simp: settled_for_def filter_empty_conv)

lemma ainv_step: "protocol c c' \<Longrightarrow> ainv c \<Longrightarrow> ainv c'"
proof (induction rule: protocol.induct)
  case (idle c)
  then show ?case .
next
  case (mount t ac ab ev ts)
  then show ?case by simp
next
  case (settle_now ph k pl t ac ab ev ts)
  then have b: "settled_for (Suc t) ev = []"
    using settled_for_bound [of ev t "Suc t"] by simp
  from settle_now b show ?case
    by (auto simp: sorted_append le_Suc_eq)
next
  case (start_load ph pl t ac ab ev ts sl ep)
  then have b: "settled_for (Suc t) ev = []"
    using settled_for_bound [of ev t "Suc t"] by simp
  from start_load b show ?case
    by (auto simp: sorted_append le_Suc_eq less_Suc_eq aborting_def)
next
  case (unmount t ac ab ev ts)
  then show ?case
    by (auto simp: le_Suc_eq less_Suc_eq)
next
  case (progress ts u st ph t ac ab ev)
  then show ?case by auto
next
  case (settle_task ts t k pl ph ac ab ev)
  then show ?case
    by (auto simp: sorted_append)
next
  case (drop_stale u t ph ac ab ev ts)
  then show ?case by auto
qed

subsection \<open>The component follows the protocol\<close>

text \<open>
  The functions that work on the root, the ledger and the window leave the controlled part
  of the state alone.
\<close>

lemma ctl_emit: "ctl (emit k pl s) =
   (phase s, ticket s, activeController s, aborted s, emitted s @ [(k, pl)], tasks s)"
  by (simp add: ctl_def emit_def)

lemma ctl_update [simp]:
  "ctl (s\<lparr>win := w\<rparr>) = ctl s" "ctl (s\<lparr>childNodes := c\<rparr>) = ctl s"
  "ctl (s\<lparr>sandboxCleanup := l\<rparr>) = ctl s" "ctl (s\<lparr>sandboxDisposed := d\<rparr>) = ctl s"
  "ctl (s\<lparr>hasShadow := h\<rparr>) = ctl s" "ctl (s\<lparr>dprSizer := z\<rparr>) = ctl s"
  "ctl (s\<lparr>fullscreen := f\<rparr>) = ctl s" "ctl (s\<lparr>recorder := r\<rparr>) = ctl s"
  "ctl (s\<lparr>console := co\<rparr>) = ctl s" "ctl (s\<lparr>warnings := wa\<rparr>) = ctl s"
  "ctl (s\<lparr>invocations := i\<rparr>) = ctl s"
  by (simp_all add: ctl_def)

lemma ctl_disableDprSizer [simp]: "ctl (disableDprSizer s) = ctl s"
  by (simp add: disableDprSizer_def)

lemma ctl_run_release [simp]: "ctl (run_release fn s) = ctl s"
  by (cases fn) simp_all

lemma ctl_foldl_release [simp]: "ctl (foldl (\<lambda>s' fn. run_release fn s') s fns) = ctl s"
  by (induction fns arbitrary: s) simp_all

lemma ctl_run_cleanup [simp]: "ctl (run_cleanup s) = ctl s"
  by (simp add: run_cleanup_def split: option.splits)

lemma ctl_clearShadow [simp]: "ctl (clearShadow s) = ctl s"
  by (simp add: clearShadow_def Let_def)

lemma ctl_prepare_root [simp]: "ctl (prepare_root s) = ctl s"
  by (simp add: prepare_root_def Let_def)

lemma ctl_push_release [simp]: "ctl (push_release fn s) = ctl s"
  by (simp add: push_release_def)

lemma ctl_wrapper_call [simp]: "ctl (snd (wrapper_call tg a cb s)) = ctl s"
  by (cases a) (simp_all add: Let_def split: prod.splits)

lemma ctl_invoke [simp]: "ctl (snd (invoke p rcv a cb s)) = ctl s"
  by (simp add: invoke_def split: jsval.splits prod.splits)

lemma ctl_exec_actions [simp]: "ctl (snd (exec_actions p acts s)) = ctl s"
proof (induction p acts s rule: exec_actions.induct)
  case (4 p rcv a cb rest s)
  show ?case
  proof (cases "invoke p rcv a cb s")
    case (Pair r s')
    then have "ctl s' = ctl s"
      using ctl_invoke [of p rcv a cb s] by simp
    with Pair 4 show ?thesis
      by (cases r) auto
  qed
qed simp_all

lemma ctl_run_callback [simp]: "ctl (run_callback p cb s) = ctl s"
  by (simp add: run_callback_def)

lemma ctl_run_handler [simp]: "ctl (run_handler p f s) = ctl s"
  by (simp add: run_handler_def split: handler.splits)

lemma ctl_fire [simp]: "ctl (fire p h s) = ctl s"
  by (simp add: fire_def split: option.splits prod.splits)

lemma ctl_frame_fires [simp]: "ctl (frame_fires p h s) = ctl s"
  by (simp add: frame_fires_def split: option.splits prod.splits)

lemma ctl_foldl_callbacks [simp]:
  "ctl (foldl (\<lambda>s' l. run_callback p (f l) s') s ls) = ctl s"
  by (induction ls arbitrary: s) simp_all

lemma ctl_dispatch [simp]: "ctl (dispatch p tg ty s) = ctl s"
  by (simp add: dispatch_def)

lemma ctl_resize [simp]: "ctl (resize p i s) = ctl s"
  by (simp add: resize_def split: option.splits prod.splits)

lemma ctl_enableDprSizer: "enableDprSizer p s = Inr s' \<Longrightarrow> ctl s' = ctl s"
  by (auto simp: enableDprSizer_def split: if_splits)

lemma ctl_apply_sizer [simp]: "ctl (apply_sizer p s) = ctl s"
  using ctl_enableDprSizer [of p s] by (simp add: apply_sizer_def split: sum.splits)

lemma ctl_on_fullscreen [simp]: "ctl (on_fullscreen p b s) = ctl s"
  using ctl_enableDprSizer [of p s] by (simp add: on_fullscreen_def split: sum.splits)

lemma run_script_effect:
  "ctl (snd (run_script p t entry s)) = ctl s \<and> fst (run_script p t entry s) \<noteq> Some AbortError"
proof -
  have "\<And>r s1. ctl (snd (exec_actions p r s1)) = ctl s1" by simp
  then have a: "\<And>r s1 x y. exec_actions p r s1 = (x, y) \<Longrightarrow> ctl y = ctl s1"
    by (metis snd_conv)
  show ?thesis
    by (auto simp: run_script_def Let_def split: option.splits sum.splits prod.splits dest!: a)
qed

lemma run_scripts_effect:
  "ctl (snd (run_scripts p t bucket s)) = ctl s \<and> fst (run_scripts p t bucket s) \<noteq> Some AbortError"
proof (induction bucket arbitrary: s)
  case Nil
  then show ?case by simp
next
  case (Cons entry rest)
  show ?case
  proof (cases "run_script p t entry s")
    case (Pair r s')
    with run_script_effect [of p t entry s] have "ctl s' = ctl s" "r \<noteq> Some AbortError"
      by simp_all
    with Pair Cons [of s'] show ?thesis
      by (cases r) auto
  qed
qed

lemma ctl_settle_inject:
  "ctl (settle_inject t sl ep res s) =
     (phase s, ticket s, activeController s, aborted s, emitted s, (tasks s)(t \<mapsto> AwaitInject sl ep res))"
  by (simp add: ctl_def settle_inject_def)

lemma ctl_fields:
  "ctl s = (ph, t, ac, ab, ev, ts) \<longleftrightarrow>
     phase s = ph \<and> ticket s = t \<and> activeController s = ac \<and> aborted s = ab \<and> emitted s = ev \<and> tasks s = ts"
  by (auto simp: ctl_def)

lemma ctl_cong:
  "ctl s' = ctl s \<Longrightarrow>
   phase s' = phase s \<and> ticket s' = ticket s \<and> activeController s' = activeController s
   \<and> aborted s' = aborted s \<and> emitted s' = emitted s \<and> tasks s' = tasks s"
  by (simp add: ctl_def)

lemma not_aborting [simp]:
  "\<not> aborting (AwaitInject sl ep None)"
  "e \<noteq> AbortError \<Longrightarrow> \<not> aborting (AwaitInject sl ep (Some e))"
  "\<not> aborting (AwaitClone sl ep b child rest bucket)"
  "\<not> aborting (AwaitFetch sl ep)"
  by (auto simp: aborting_def split: js_error.splits)

lemma inject_loop_effect:
  "\<exists>st. \<not> aborting st \<and>
     ctl (inject_loop p t sl ep b nodes bucket s) =
       (phase s, ticket s, activeController s, aborted s, emitted s, (tasks s)(t \<mapsto> st))"
proof (cases nodes)
  case Nil
  show ?thesis
  proof (cases "ticket s \<noteq> t")
    case True
    with Nil show ?thesis
      by (intro exI [of _ "AwaitInject sl ep None"]) (simp add: inject_loop_def ctl_settle_inject)
  next
    case False
    obtain res s' where r: "run_scripts p t bucket s = (res, s')"
      by (cases "run_scripts p t bucket s")
    with run_scripts_effect [of p t bucket s] have c: "ctl s' = ctl s" and na: "res \<noteq> Some AbortError"
      by simp_all
    have "ctl (apply_sizer p s') = ctl s" using c by simp
    note f = ctl_cong [OF this] ctl_cong [OF c]
    show ?thesis
    proof (cases res)
      case None
      with Nil False r f show ?thesis
        by (intro exI [of _ "AwaitInject sl ep None"]) (simp add: inject_loop_def ctl_settle_inject)
    next
      case (Some e)
      with na have "e \<noteq> AbortError" by simp
      with Some Nil False r f show ?thesis
        by (intro exI [of _ "AwaitInject sl ep (Some e)"]) (simp add: inject_loop_def ctl_settle_inject)
    qed
  qed
next
  case (Cons child rest)
  show ?thesis
  proof (cases "ticket s \<noteq> t")
    case True
    with Cons show ?thesis
      by (intro exI [of _ "AwaitInject sl ep None"]) (simp add: inject_loop_def ctl_settle_inject)
  next
    case False
    with Cons show ?thesis
      by (intro exI [of _ "AwaitClone sl ep b child rest bucket"]) (simp add: inject_loop_def ctl_def)
  qed
qed

lemma injectHtml_effect:
  "\<exists>st. \<not> aborting st \<and>
     ctl (injectHtml p html b t sl ep s) =
       (phase s, ticket s, activeController s, aborted s, emitted s, (tasks s)(t \<mapsto> st))"
proof (cases "phase s \<noteq> Mounted")
  case True
  then show ?thesis
    by (intro exI [of _ "AwaitInject sl ep None"]) (simp add: injectHtml_def ctl_settle_inject)
next
  case False
  have "ctl (prepare_root s) = ctl s" by simp
  note f = ctl_cong [OF this]
  from inject_loop_effect [of p t sl ep b "parseFromString p html" "[]" "prepare_root s"] f False
  show ?thesis
    by (simp add: injectHtml_def)
qed

lemma resume_clone_effect:
  "\<exists>st. \<not> aborting st \<and>
     ctl (resume_clone p t sl ep b child rest bucket s) =
       (phase s, ticket s, activeController s, aborted s, emitted s, (tasks s)(t \<mapsto> st))"
proof (cases "cloneNodeTree p b child bucket")
  case (Inl e)
  with cloneNodeTree_no_abort(1) [of p b child bucket] have "e \<noteq> AbortError" by auto
  with Inl show ?thesis
    by (intro exI [of _ "AwaitInject sl ep (Some e)"]) (simp add: resume_clone_def ctl_settle_inject)
next
  case (Inr r)
  obtain cloned bucket' where r: "r = (cloned, bucket')" by (cases r)
  let ?s' = "(case cloned of None \<Rightarrow> s | Some c \<Rightarrow> s\<lparr>childNodes := childNodes s @ [c]\<rparr>)"
  have "ctl ?s' = ctl s" by (simp split: option.splits)
  note f = ctl_cong [OF this]
  from inject_loop_effect [of p t sl ep b rest bucket' ?s'] f Inr r show ?thesis
    by (simp add: resume_clone_def)
qed

lemma on_catch_effect:
  "e \<noteq> AbortError \<Longrightarrow>
   ctl (on_catch t sl ep e s) =
     (if ticket s = t
      then (phase s, ticket s, activeController s, aborted s,
            emitted s @ [(Failed, createEventPayload sl ep t (ErrorMessage (message e)))], tasks s)
      else ctl s)"
  using ctl_cong [OF ctl_clearShadow [of s]] by (simp add: on_catch_def ctl_emit)

lemma ctl_finish:
  "ctl (finish t s) = (phase s, ticket s, activeController s, aborted s, emitted s, (tasks s)(t := None))"
  by (simp add: ctl_def finish_def)

lemma finish_fields [simp]:
  "ticket (finish t s) = ticket s" "phase (finish t s) = phase s"
  "activeController (finish t s) = activeController s" "aborted (finish t s) = aborted s"
  "emitted (finish t s) = emitted s" "tasks (finish t s) = (tasks s)(t := None)"
  by (simp_all add: finish_def)

lemma ticketValue_payload [simp]: "ticketValue (createEventPayload sl ep t ex) = t"
  by (simp add: createEventPayload_def)

lemma caught_protocol:
  assumes "tasks s t \<noteq> None" "e \<noteq> AbortError"
  shows "protocol (ctl s) (ctl (on_catch t sl ep e (finish t s)))"
proof (cases "ticket s = t")
  case True
  have "protocol (phase s, t, activeController s, aborted s, emitted s, tasks s)
     (phase s, t, activeController s, aborted s,
      emitted s @ [(Failed, createEventPayload sl ep t (ErrorMessage (message e)))], (tasks s)(t := None))"
    by (rule protocol.settle_task) (use assms in simp_all)
  with True assms show ?thesis
    by (simp add: on_catch_effect) (simp add: ctl_def)
next
  case False
  have "protocol (phase s, ticket s, activeController s, aborted s, emitted s, tasks s)
     (phase s, ticket s, activeController s, aborted s, emitted s, (tasks s)(t := None))"
    by (rule protocol.drop_stale) (use False in simp)
  with False assms show ?thesis
    by (simp add: on_catch_effect) (simp add: ctl_def)
qed

lemma progress_protocol:
  assumes "tasks s t \<noteq> None"
    and "\<exists>st. \<not> aborting st \<and>
           ctl s' = (phase s, ticket s, activeController s, aborted s, emitted s, (tasks s)(t \<mapsto> st))"
  shows "protocol (ctl s) (ctl s')"
proof -
  from assms(2) obtain st where st: "\<not> aborting st"
    "ctl s' = (phase s, ticket s, activeController s, aborted s, emitted s, (tasks s)(t \<mapsto> st))"
    by blast
  have "protocol (phase s, ticket s, activeController s, aborted s, emitted s, tasks s)
          (phase s, ticket s, activeController s, aborted s, emitted s, (tasks s)(t \<mapsto> st))"
    by (rule protocol.progress) (use assms(1) st(1) in simp_all)
  with st(2) show ?thesis by (simp add: ctl_def)
qed

lemma resume_fetch_protocol:
  assumes "tasks s t \<noteq> None"
  shows "protocol (ctl s) (ctl (resume_fetch p t sl ep s))"
  using assms caught_protocol [of s t _ sl ep]
    progress_protocol [OF assms injectHtml_effect]
  by (auto simp: resume_fetch_def split: sum.splits)

lemma resume_inject_protocol:
  assumes "tasks s t = Some (AwaitInject sl ep res)" "\<not> aborting (AwaitInject sl ep res)"
  shows "protocol (ctl s) (ctl (resume_inject t sl ep res s))"
proof (cases res)
  case None
  show ?thesis
  proof (cases "ticket s = t")
    case True
    have "protocol (phase s, t, activeController s, aborted s, emitted s, tasks s)
       (phase s, t, activeController s, aborted s,
        emitted s @ [(Loaded, createEventPayload sl ep t NoExtra)], (tasks s)(t := None))"
      by (rule protocol.settle_task) (use assms in simp_all)
    with True None show ?thesis
      by (simp add: resume_inject_def ctl_emit) (simp add: ctl_def)
  next
    case False
    have "protocol (phase s, ticket s, activeController s, aborted s, emitted s, tasks s)
       (phase s, ticket s, activeController s, aborted s, emitted s, (tasks s)(t := None))"
      by (rule protocol.drop_stale) (use False in simp)
    with False None show ?thesis
      by (simp add: resume_inject_def ctl_def)
  qed
next
  case (Some e)
  with assms(2) have "e \<noteq> AbortError" by (auto simp: aborting_def)
  with Some assms(1) caught_protocol [of s t e sl ep] show ?thesis
    by (simp add: resume_inject_def)
qed

lemma resume_protocol:
  assumes "\<forall>u. tasks s u \<noteq> None \<longrightarrow> \<not> aborting (the (tasks s u))"
  shows "protocol (ctl s) (ctl (resume p t s))"
proof (cases "tasks s t")
  case None
  then show ?thesis by (simp add: resume_def protocol.idle)
next
  case (Some st)
  then have pending: "tasks s t \<noteq> None" by simp
  from assms Some have na: "\<not> aborting st" by force
  show ?thesis
  proof (cases st)
    case (AwaitFetch sl ep)
    with Some resume_fetch_protocol [OF pending] show ?thesis
      by (simp add: resume_def)
  next
    case (AwaitClone sl ep b child rest bucket)
    with Some progress_protocol [OF pending resume_clone_effect] show ?thesis
      by (simp add: resume_def)
  next
    case (AwaitInject sl ep res)
    with Some na resume_inject_protocol [of s t sl ep res] show ?thesis
      by (simp add: resume_def)
  qed
qed

lemma abort_settle_protocol:
  assumes "\<forall>u \<in> aborted s. u < ticket s"
  shows "protocol (ctl s) (ctl (abort_settle t s))"
proof (cases "\<exists>sl ep. tasks s t = Some (AwaitFetch sl ep) \<and> t \<in> aborted s")
  case True
  then obtain sl ep where a: "tasks s t = Some (AwaitFetch sl ep)" "t \<in> aborted s" by blast
  with assms have "t \<noteq> ticket s" by auto
  then have "protocol (phase s, ticket s, activeController s, aborted s, emitted s, tasks s)
       (phase s, ticket s, activeController s, aborted s, emitted s, (tasks s)(t := None))"
    by (rule protocol.drop_stale)
  with a show ?thesis
    by (simp add: abort_settle_def on_catch_def ctl_def)
next
  case False
  then have "abort_settle t s = s"
    by (auto simp: abort_settle_def split: option.splits stage.splits)
  then show ?thesis by (simp add: protocol.idle)
qed

lemma on_change_protocol:
  assumes "phase s \<noteq> Unmounted"
  shows "protocol (ctl s) (ctl (on_change sl ep s))"
proof -
  let ?t = "Suc (ticket s)"
  let ?s1 = "s\<lparr>ticket := ?t\<rparr>"
  have "ctl (clearShadow ?s1) = ctl ?s1" by simp
  note cs = ctl_cong [OF this]
  show ?thesis
  proof (cases "sl = []")
    case True
    have "protocol (phase s, ticket s, activeController s, aborted s, emitted s, tasks s)
       (phase s, ?t, activeController s, aborted s,
        emitted s @ [(Failed, createEventPayload sl ep ?t
            (ErrorMessage ''Sandbox slug is missing. Cannot load project.''))], tasks s)"
      by (rule protocol.settle_now) (use assms in simp_all)
    with True cs show ?thesis
      by (simp add: on_change_def Let_def ctl_emit) (simp add: ctl_def)
  next
    case noslug: False
    show ?thesis
    proof (cases "ep = []")
      case True
      have "protocol (phase s, ticket s, activeController s, aborted s, emitted s, tasks s)
         (phase s, ?t, activeController s, aborted s,
          emitted s @ [(Loaded, createEventPayload sl ep ?t Empty)], tasks s)"
        by (rule protocol.settle_now) (use assms in simp_all)
      with True noslug cs show ?thesis
        by (simp add: on_change_def Let_def ctl_emit) (simp add: ctl_def)
    next
      case False
      have "protocol (phase s, ticket s, activeController s, aborted s, emitted s, tasks s)
         (phase s, ?t, Some ?t, aborted s \<union> set_option (activeController s),
          emitted s @ [(Loading, createEventPayload sl ep ?t NoExtra)],
          (tasks s)(?t \<mapsto> AwaitFetch sl ep))"
        by (rule protocol.start_load) (use assms in simp_all)
      with False noslug show ?thesis
        by (cases "activeController s")
           (simp_all add: on_change_def Let_def loadProject_def emit_def ctl_def)
    qed
  qed
qed

lemma onBeforeUnmount_protocol:
  assumes "phase s = Mounted"
  shows "protocol (ctl s) (ctl ((onBeforeUnmount s)\<lparr>phase := Unmounted\<rparr>))"
proof -
  let ?s1 = "s\<lparr>ticket := Suc (ticket s)\<rparr>"
  have "ctl (clearShadow ?s1) = ctl ?s1" by simp
  note cs = ctl_cong [OF this]
  have "protocol (Mounted, ticket s, activeController s, aborted s, emitted s, tasks s)
     (Unmounted, Suc (ticket s), None, aborted s \<union> set_option (activeController s), emitted s, tasks s)"
    by (rule protocol.unmount)
  with assms cs show ?thesis
    by (cases "activeController s")
       (simp_all add: onBeforeUnmount_def Let_def ctl_def disableDprSizer_def)
qed

lemma step_protocol:
  assumes "ainv (ctl s)"
  shows "protocol (ctl s) (ctl (step p s e))"
proof (cases e)
  case Mount
  have "protocol (Setup, ticket s, activeController s, aborted s, emitted s, tasks s)
     (Mounted, ticket s, activeController s, aborted s, emitted s, tasks s)"
    by (rule protocol.mount)
  with Mount show ?thesis
    by (auto simp: ctl_def protocol.idle)
next
  case (Change sl ep)
  with on_change_protocol [of s sl ep] show ?thesis
    by (auto simp: protocol.idle)
next
  case Unmount
  with onBeforeUnmount_protocol [of s] show ?thesis
    by (auto simp: protocol.idle)
next
  case (Resume t)
  from assms have "\<forall>u. tasks s u \<noteq> None \<longrightarrow> \<not> aborting (the (tasks s u))"
    by (simp add: ctl_def)
  with Resume resume_protocol [of s p t] show ?thesis by simp
next
  case (AbortSettle t)
  from assms have "\<forall>u \<in> aborted s. u < ticket s"
    by (simp add: ctl_def)
  with AbortSettle abort_settle_protocol [of s t] show ?thesis by simp
qed (simp_all add: protocol.idle)

lemma ainv_initial: "ainv (ctl initial)"
  by (simp add: ctl_def initial_def)

lemma ainv_run_from: "ainv (ctl s) \<Longrightarrow> ainv (ctl (run p s es))"
proof (induction es arbitrary: s)
  case Nil
  then show ?case by (simp add: run_def)
next
  case (Cons e es)
  from Cons.prems have "ainv (ctl (step p s e))"
    using ainv_step [OF step_protocol] by blast
  with Cons.IH [of "step p s e"] show ?case by (simp add: run_def)
qed

lemma ainv_run: "ainv (ctl (run p initial es))"
  using ainv_run_from [OF ainv_initial] .

subsection \<open>Tickets and events\<close>

lemma protocol_events:
  "protocol c c' \<Longrightarrow>
   fst (snd c) \<le> fst (snd c') \<and>
   (\<exists>new. fst (snd (snd (snd (snd c')))) = fst (snd (snd (snd (snd c)))) @ new \<and>
      length new \<le> 1 \<and>
      (\<forall>e \<in> set new. ticketValue (snd e) = fst (snd c')))"
  by (induction rule: protocol.induct) auto

lemma step_events:
  assumes "ainv (ctl s)"
  shows "ticket s \<le> ticket (step p s e) \<and>
     (\<exists>new. emitted (step p s e) = emitted s @ new \<and> length new \<le> 1 \<and>
        (\<forall>ev \<in> set new. ticketValue (snd ev) = ticket (step p s e)))"
  using protocol_events [OF step_protocol [OF assms, of p e]] by (simp add: ctl_def)

lemma change_mints:
  "phase s \<noteq> Unmounted \<Longrightarrow> ticket (step p s (Change sl ep)) = Suc (ticket s)"
  using ctl_cong [OF ctl_clearShadow [of "s\<lparr>ticket := Suc (ticket s)\<rparr>"]]
  by (simp add: on_change_def Let_def emit_def loadProject_def split: option.splits)

lemma stale_inject_loop:
  "ticket s \<noteq> t \<Longrightarrow>
   inject_loop p t sl ep b nodes bucket s = settle_inject t sl ep None s"
  by (simp add: inject_loop_def split: list.splits)

text \<open>The releases touch the window and the sizer only.\<close>

lemma run_release_fields [simp]:
  "recorder (run_release fn s) = recorder s" "invocations (run_release fn s) = invocations s"
  "console (run_release fn s) = console s" "childNodes (run_release fn s) = childNodes s"
  "sandboxCleanup (run_release fn s) = sandboxCleanup s"
  "sandboxDisposed (run_release fn s) = sandboxDisposed s"
  "hasShadow (run_release fn s) = hasShadow s" "fullscreen (run_release fn s) = fullscreen s"
  "warnings (run_release fn s) = warnings s"
  by (cases fn; simp add: disableDprSizer_def)+

lemma foldl_release_fields [simp]:
  "recorder (foldl (\<lambda>s' fn. run_release fn s') s fns) = recorder s"
  "invocations (foldl (\<lambda>s' fn. run_release fn s') s fns) = invocations s"
  "console (foldl (\<lambda>s' fn. run_release fn s') s fns) = console s"
  "childNodes (foldl (\<lambda>s' fn. run_release fn s') s fns) = childNodes s"
  "sandboxCleanup (foldl (\<lambda>s' fn. run_release fn s') s fns) = sandboxCleanup s"
  "sandboxDisposed (foldl (\<lambda>s' fn. run_release fn s') s fns) = sandboxDisposed s"
  "hasShadow (foldl (\<lambda>s' fn. run_release fn s') s fns) = hasShadow s"
  "fullscreen (foldl (\<lambda>s' fn. run_release fn s') s fns) = fullscreen s"
  "warnings (foldl (\<lambda>s' fn. run_release fn s') s fns) = warnings s"
  by (induction fns arbitrary: s; simp)+

lemma run_cleanup_fields [simp]:
  "recorder (run_cleanup s) = recorder s" "invocations (run_cleanup s) = invocations s"
  "console (run_cleanup s) = console s" "childNodes (run_cleanup s) = childNodes s"
  "sandboxDisposed (run_cleanup s) = sandboxDisposed s"
  "hasShadow (run_cleanup s) = hasShadow s" "fullscreen (run_cleanup s) = fullscreen s"
  "warnings (run_cleanup s) = warnings s"
  "sandboxCleanup (run_cleanup s) = map_option (\<lambda>fns. []) (sandboxCleanup s)"
  by (simp_all add: run_cleanup_def split: option.splits)

lemma clearShadow_fields [simp]:
  "recorder (clearShadow s) = recorder s" "invocations (clearShadow s) = invocations s"
  "console (clearShadow s) = console s" "hasShadow (clearShadow s) = hasShadow s"
  "fullscreen (clearShadow s) = fullscreen s" "warnings (clearShadow s) = warnings s"
  "phase (clearShadow s) = phase s" "ticket (clearShadow s) = ticket s"
  "activeController (clearShadow s) = activeController s" "aborted (clearShadow s) = aborted s"
  "emitted (clearShadow s) = emitted s" "tasks (clearShadow s) = tasks s"
  using ctl_cong [OF ctl_clearShadow [of s]]
  by (simp_all add: clearShadow_def Let_def)

lemma prepare_root_fields [simp]:
  "recorder (prepare_root s) = recorder s" "invocations (prepare_root s) = invocations s"
  "console (prepare_root s) = console s" "hasShadow (prepare_root s) = True"
  "fullscreen (prepare_root s) = fullscreen s" "warnings (prepare_root s) = warnings s"
  "phase (prepare_root s) = phase s" "ticket (prepare_root s) = ticket s"
  "activeController (prepare_root s) = activeController s" "aborted (prepare_root s) = aborted s"
  "emitted (prepare_root s) = emitted s" "tasks (prepare_root s) = tasks s"
  "childNodes (prepare_root s) = [defaultStyle]" "sandboxDisposed (prepare_root s) = False"
  "sandboxCleanup (prepare_root s) = Some []"
  using ctl_cong [OF ctl_prepare_root [of s]]
  by (simp_all add: prepare_root_def Let_def)

lemma stale_resume:
  assumes "ticket s \<noteq> t"
  shows "emitted (resume p t s) = emitted s \<and> invocations (resume p t s) = invocations s
     \<and> recorder (resume p t s) = recorder s"
proof (cases "tasks s t")
  case None
  then show ?thesis by (simp add: resume_def)
next
  case (Some st)
  show ?thesis
  proof (cases st)
    case (AwaitFetch sl ep)
    with Some assms show ?thesis
      by (auto simp: resume_def resume_fetch_def on_catch_def injectHtml_def
            stale_inject_loop settle_inject_def finish_def
          split: sum.splits)
  next
    case (AwaitClone sl ep b child rest bucket)
    with Some assms show ?thesis
      by (auto simp: resume_def resume_clone_def stale_inject_loop settle_inject_def
          split: sum.splits option.splits prod.splits)
  next
    case (AwaitInject sl ep res)
    with Some assms show ?thesis
      by (auto simp: resume_def resume_inject_def on_catch_def finish_def split: option.splits)
  qed
qed

lemma stale_abort_settle:
  "emitted (abort_settle t s) = emitted s \<and> invocations (abort_settle t s) = invocations s
     \<and> recorder (abort_settle t s) = recorder s"
  by (auto simp: abort_settle_def on_catch_def finish_def split: option.splits stage.splits)

lemma run_append: "run p s (xs @ ys) = run p (run p s xs) ys"
  by (simp add: run_def)

lemma run_Cons: "run p s (e # es) = run p (step p s e) es"
  by (simp add: run_def)

lemma run_Nil: "run p s [] = s"
  by (simp add: run_def)

text \<open>A suspended load reaches its end after finitely many resumptions.\<close>

lemma inject_loop_task:
  "(\<exists>res. tasks (inject_loop p t sl ep b nodes bucket s) t = Some (AwaitInject sl ep res))
   \<or> (\<exists>c r. nodes = c # r \<and>
         tasks (inject_loop p t sl ep b nodes bucket s) t = Some (AwaitClone sl ep b c r bucket))"
  by (auto simp: inject_loop_def settle_inject_def split: list.splits prod.splits option.splits)

lemma await_inject_ends:
  "tasks s t = Some (AwaitInject sl ep res) \<Longrightarrow> tasks (step p s (Resume t)) t = None"
  by (auto simp: resume_def resume_inject_def on_catch_def emit_def split: option.splits)

lemma await_clone_ends:
  "tasks s t = Some (AwaitClone sl ep b child rest bucket) \<Longrightarrow>
   \<exists>n. tasks (run p s (replicate n (Resume t))) t = None"
proof (induction rest arbitrary: s child bucket)
  case Nil
  let ?s1 = "step p s (Resume t)"
  have "\<exists>res. tasks ?s1 t = Some (AwaitInject sl ep res)"
  proof (cases "cloneNodeTree p b child bucket")
    case (Inl e)
    with Nil show ?thesis by (simp add: resume_def resume_clone_def settle_inject_def)
  next
    case (Inr r)
    obtain cloned bucket' where r: "r = (cloned, bucket')" by (cases r)
    from Nil Inr r inject_loop_task [of p t sl ep b "[]" bucket'] show ?thesis
      by (simp add: resume_def resume_clone_def)
  qed
  then obtain res where "tasks ?s1 t = Some (AwaitInject sl ep res)" by blast
  then have "tasks (step p ?s1 (Resume t)) t = None" by (rule await_inject_ends)
  then have "tasks (run p s (replicate 2 (Resume t))) t = None"
    by (simp add: run_def numeral_2_eq_2)
  then show ?case by blast
next
  case (Cons c r)
  let ?s1 = "step p s (Resume t)"
  have "(\<exists>res. tasks ?s1 t = Some (AwaitInject sl ep res))
      \<or> (\<exists>bucket'. tasks ?s1 t = Some (AwaitClone sl ep b c r bucket'))"
  proof (cases "cloneNodeTree p b child bucket")
    case (Inl e)
    with Cons.prems show ?thesis by (simp add: resume_def resume_clone_def settle_inject_def)
  next
    case (Inr x)
    obtain cloned bucket' where x: "x = (cloned, bucket')" by (cases x)
    from Cons.prems Inr x inject_loop_task [of p t sl ep b "c # r" bucket'] show ?thesis
      by (auto simp: resume_def resume_clone_def)
  qed
  then show ?case
  proof
    assume "\<exists>res. tasks ?s1 t = Some (AwaitInject sl ep res)"
    then obtain res where "tasks ?s1 t = Some (AwaitInject sl ep res)" by blast
    then have "tasks (step p ?s1 (Resume t)) t = None" by (rule await_inject_ends)
    then have "tasks (run p s (replicate 2 (Resume t))) t = None"
      by (simp add: run_def numeral_2_eq_2)
    then show ?thesis by blast
  next
    assume "\<exists>bucket'. tasks ?s1 t = Some (AwaitClone sl ep b c r bucket')"
    then obtain bucket' where "tasks ?s1 t = Some (AwaitClone sl ep b c r bucket')" by blast
    from Cons.IH [OF this] obtain n where "tasks (run p ?s1 (replicate n (Resume t))) t = None"
      by blast
    then have "tasks (run p s (replicate (Suc n) (Resume t))) t = None"
      by (simp add: run_Cons)
    then show ?thesis by blast
  qed
qed

lemma resume_fetch_task:
  "tasks (resume_fetch p t sl ep s) t = None
   \<or> (\<exists>res. tasks (resume_fetch p t sl ep s) t = Some (AwaitInject sl ep res))
   \<or> (\<exists>b c r bucket. tasks (resume_fetch p t sl ep s) t = Some (AwaitClone sl ep b c r bucket))"
proof -
  have c: "\<And>e. tasks (on_catch t sl ep e (finish t s)) t = None"
    by (simp add: on_catch_def emit_def)
  have i: "(\<exists>res. tasks (injectHtml p html b t sl ep s) t = Some (AwaitInject sl ep res))
      \<or> (\<exists>c r bucket. tasks (injectHtml p html b t sl ep s) t = Some (AwaitClone sl ep b c r bucket))"
    for html b
  proof (cases "phase s \<noteq> Mounted")
    case True
    then show ?thesis by (simp add: injectHtml_def settle_inject_def)
  next
    case False
    with inject_loop_task [of p t sl ep b "parseFromString p html" "[]" "prepare_root s"]
    show ?thesis by (simp add: injectHtml_def) blast
  qed
  show ?thesis
  proof (cases "fetch p ep")
    case (Inl m)
    with c show ?thesis by (simp add: resume_fetch_def)
  next
    case (Inr r)
    show ?thesis
    proof (cases "ok r")
      case False
      with Inr c show ?thesis by (simp add: resume_fetch_def)
    next
      case True
      show ?thesis
      proof (cases "response_text r")
        case (Inl m)
        with Inr True c show ?thesis by (simp add: resume_fetch_def)
      next
        case html: (Inr html)
        show ?thesis
        proof (cases "URL_new p ep (origin p)")
          case (Inl m)
          with Inr True html c show ?thesis by (simp add: resume_fetch_def)
        next
          case u: (Inr u)
          with Inr True html i [of html "href u"] show ?thesis
            by (simp add: resume_fetch_def) blast
        qed
      qed
    qed
  qed
qed

lemma load_ends: "\<exists>n. tasks (run p s (replicate n (Resume t))) t = None"
proof (cases "tasks s t")
  case None
  then have "tasks (run p s (replicate 0 (Resume t))) t = None" by (simp add: run_def)
  then show ?thesis by blast
next
  case (Some st)
  show ?thesis
  proof (cases st)
    case (AwaitFetch sl ep)
    let ?s1 = "step p s (Resume t)"
    have s1: "?s1 = resume_fetch p t sl ep s"
      using Some AwaitFetch by (simp add: resume_def)
    have "\<exists>n. tasks (run p ?s1 (replicate n (Resume t))) t = None"
      using resume_fetch_task [of p t sl ep s]
    proof (elim disjE exE)
      assume "tasks (resume_fetch p t sl ep s) t = None"
      with s1 have "tasks (run p ?s1 (replicate 0 (Resume t))) t = None" by (simp add: run_def)
      then show ?thesis by blast
    next
      fix res
      assume "tasks (resume_fetch p t sl ep s) t = Some (AwaitInject sl ep res)"
      with s1 have "tasks (step p ?s1 (Resume t)) t = None"
        using await_inject_ends [of ?s1 t sl ep res p] by simp
      then have "tasks (run p ?s1 (replicate 1 (Resume t))) t = None"
        by (simp add: run_def)
      then show ?thesis by blast
    next
      fix b c r bucket
      assume "tasks (resume_fetch p t sl ep s) t = Some (AwaitClone sl ep b c r bucket)"
      with s1 await_clone_ends [of ?s1 t sl ep b c r bucket p] show ?thesis by simp
    qed
    then obtain n where "tasks (run p ?s1 (replicate n (Resume t))) t = None" by blast
    then have "tasks (run p s (replicate (Suc n) (Resume t))) t = None"
      by (simp add: run_Cons)
    then show ?thesis by blast
  next
    case (AwaitClone sl ep b child rest bucket)
    with Some await_clone_ends [of s t sl ep b child rest bucket p] show ?thesis by simp
  next
    case (AwaitInject sl ep res)
    with Some have "tasks (step p s (Resume t)) t = None"
      using await_inject_ends [of s t sl ep res p] by simp
    then have "tasks (run p s (replicate 1 (Resume t))) t = None"
      by (simp add: run_def)
    then show ?thesis by blast
  qed
qed

lemma on_catch_keeps:
  "ticket (on_catch t sl ep e s) = ticket s \<and> phase (on_catch t sl ep e s) = phase s"
  by (simp add: on_catch_def emit_def)

lemma resume_keeps: "ticket (resume p t s) = ticket s \<and> phase (resume p t s) = phase s"
proof (cases "tasks s t")
  case None
  then show ?thesis by (simp add: resume_def)
next
  case (Some st)
  show ?thesis
  proof (cases st)
    case (AwaitFetch sl ep)
    have "\<And>html b. ticket (injectHtml p html b t sl ep s) = ticket s
        \<and> phase (injectHtml p html b t sl ep s) = phase s"
      using injectHtml_effect [of p _ _ t sl ep s] by (auto simp: ctl_def)
    with Some AwaitFetch show ?thesis
      by (auto simp: resume_def resume_fetch_def on_catch_keeps split: sum.splits)
  next
    case (AwaitClone sl ep b child rest bucket)
    with Some resume_clone_effect [of p t sl ep b child rest bucket s] show ?thesis
      by (auto simp: resume_def ctl_def)
  next
    case (AwaitInject sl ep res)
    with Some show ?thesis
      by (auto simp: resume_def resume_inject_def on_catch_keeps emit_def split: option.splits)
  qed
qed

text \<open>
  The ticket discipline, in every state that the component reaches from its start under
  any schedule of the environment: a descriptor change mints the next ticket, and no step
  lowers the ticket; a step emits at most one event, and the event carries the ticket that
  is current after the step, so the tickets of the emitted events never decrease; every
  ticket has at most one \<open>loaded\<close> or \<open>error\<close> event; while the component is not
  unmounted, the final ticket has exactly one such event as soon as its load is no longer
  suspended, and finitely many resumptions of that load bring this about; a step of a
  load whose ticket is stale emits no event and runs no script; and a stale load that
  comes to a check of the ticket stops there.
\<close>

lemma ticket_discipline:
  "(let s = run p initial es in
      (phase s \<noteq> Unmounted \<longrightarrow> ticket (step p s (Change sl ep)) = Suc (ticket s))
    \<and> ticket s \<le> ticket (step p s e)
    \<and> (\<exists>new. emitted (step p s e) = emitted s @ new \<and> length new \<le> 1
          \<and> (\<forall>ev \<in> set new. ticketValue (snd ev) = ticket (step p s e)))
    \<and> sorted (map (\<lambda>ev. ticketValue (snd ev)) (emitted s))
    \<and> length (settled_for u (emitted s)) \<le> 1
    \<and> (phase s \<noteq> Unmounted \<and> 0 < ticket s \<and> tasks s (ticket s) = None
          \<longrightarrow> length (settled_for (ticket s) (emitted s)) = 1)
    \<and> (phase s \<noteq> Unmounted \<and> 0 < ticket s
          \<longrightarrow> (\<exists>n. length (settled_for (ticket s)
                         (emitted (run p s (replicate n (Resume (ticket s)))))) = 1))
    \<and> (t \<noteq> ticket s
          \<longrightarrow> emitted (step p s (Resume t)) = emitted s
            \<and> invocations (step p s (Resume t)) = invocations s
            \<and> recorder (step p s (Resume t)) = recorder s
            \<and> emitted (step p s (AbortSettle t)) = emitted s
            \<and> invocations (step p s (AbortSettle t)) = invocations s
            \<and> recorder (step p s (AbortSettle t)) = recorder s
            \<and> inject_loop p t sl ep b nodes bucket s = settle_inject t sl ep None s))"
proof -
  define s where "s = run p initial es"
  have inv: "ainv (ctl s)"
    unfolding s_def by (rule ainv_run)
  have mint: "phase s \<noteq> Unmounted \<longrightarrow> ticket (step p s (Change sl ep)) = Suc (ticket s)"
    using change_mints [of s p sl ep] by simp
  note ev = step_events [OF inv, of p e]
  from inv have sorted: "sorted (map (\<lambda>ev. ticketValue (snd ev)) (emitted s))"
    and once: "length (settled_for u (emitted s)) \<le> 1"
    and quiet: "phase s \<noteq> Unmounted \<and> 0 < ticket s \<and> tasks s (ticket s) = None
          \<longrightarrow> length (settled_for (ticket s) (emitted s)) = 1"
    by (simp_all add: ctl_def)
  have live: "phase s \<noteq> Unmounted \<and> 0 < ticket s
          \<longrightarrow> (\<exists>n. length (settled_for (ticket s)
                         (emitted (run p s (replicate n (Resume (ticket s)))))) = 1)"
  proof
    assume a: "phase s \<noteq> Unmounted \<and> 0 < ticket s"
    obtain n where n: "tasks (run p s (replicate n (Resume (ticket s)))) (ticket s) = None"
      using load_ends [of p s "ticket s"] by blast
    let ?s' = "run p s (replicate n (Resume (ticket s)))"
    have same: "ticket ?s' = ticket s \<and> phase ?s' = phase s"
    proof (induction n)
      case 0
      then show ?case by (simp add: run_def)
    next
      case (Suc k)
      have "replicate (Suc k) (Resume (ticket s)) = replicate k (Resume (ticket s)) @ [Resume (ticket s)]"
        by (simp add: replicate_append_same)
      then have r: "run p s (replicate (Suc k) (Resume (ticket s)))
          = step p (run p s (replicate k (Resume (ticket s)))) (Resume (ticket s))"
        by (simp add: run_append run_Cons run_Nil)
      from resume_keeps [of p "ticket s" "run p s (replicate k (Resume (ticket s)))"]
      have "ticket (resume p (ticket s) (run p s (replicate k (Resume (ticket s)))))
            = ticket (run p s (replicate k (Resume (ticket s))))
          \<and> phase (resume p (ticket s) (run p s (replicate k (Resume (ticket s)))))
            = phase (run p s (replicate k (Resume (ticket s))))" .
      with Suc r show ?case by simp
    qed
    have "ainv (ctl ?s')" using ainv_run_from [OF inv] .
    with same a n have "length (settled_for (ticket s) (emitted ?s')) = 1"
      by (simp add: ctl_def)
    then show "\<exists>n. length (settled_for (ticket s)
                         (emitted (run p s (replicate n (Resume (ticket s)))))) = 1"
      by blast
  qed
  have stale: "t \<noteq> ticket s
          \<longrightarrow> emitted (step p s (Resume t)) = emitted s
            \<and> invocations (step p s (Resume t)) = invocations s
            \<and> recorder (step p s (Resume t)) = recorder s
            \<and> emitted (step p s (AbortSettle t)) = emitted s
            \<and> invocations (step p s (AbortSettle t)) = invocations s
            \<and> recorder (step p s (AbortSettle t)) = recorder s
            \<and> inject_loop p t sl ep b nodes bucket s = settle_inject t sl ep None s"
    using stale_resume [of s t p] stale_abort_settle [of t s]
      stale_inject_loop [of s t p sl ep b nodes bucket] by auto
  from mint ev sorted once quiet live stale show ?thesis
    unfolding Let_def s_def [symmetric] by blast
qed

text \<open>
  C1. The loop of \<open>injectHtml\<close> checks the ticket at its head, before the \<open>await\<close>
  of \<open>cloneNodeTree\<close>, and appends the clone after it without a second check. The load
  of \<open>three\<close> (ticket 1) waits for the script of its second child when \<open>clock\<close> is
  selected (ticket 2); the load of \<open>clock\<close> empties the root and attaches its first
  child. When the clone of ticket 1 settles, the stale load appends it to the root, which
  the events say belongs to ticket 2: after \<open>loaded\<close> for ticket 2 the root holds the
  element of \<open>three\<close> beside the paragraph of \<open>clock\<close>. No event and no script of
  ticket 1 follows.
\<close>

theorem stale_clone_is_appended:
  "ticket (run demo initial overlap_start) = 2
   \<and> tasks (run demo initial overlap_start) 1
       = Some (AwaitClone ''demo'' ''/projects/demo/index.html'' demo_base (hd three_rest)
                 (tl three_rest) [\<lparr>code = ''A'', runner = None\<rparr>])
   \<and> childNodes (run demo initial overlap_start)
       = [defaultStyle, ElementNode ''P'' [] [TextNode ''clock'']]
   \<and> childNodes (step demo (run demo initial overlap_start) (Resume 1))
       = [defaultStyle, ElementNode ''P'' [] [TextNode ''clock''],
          ElementNode ''DIV'' [(''class'', ''app'')]
            [ElementNode ''IMG'' [(''src'', ''/projects/demo/a/b.png'')] []]]
   \<and> map (\<lambda>ev. (fst ev, ticketValue (snd ev))) (emitted (run demo initial overlapping_loads))
       = [(Loading, 1), (Loading, 2), (Loaded, 2)]
   \<and> childNodes (run demo initial overlapping_loads)
       = [defaultStyle, ElementNode ''P'' [] [TextNode ''clock''],
          ElementNode ''DIV'' [(''class'', ''app'')]
            [ElementNode ''IMG'' [(''src'', ''/projects/demo/a/b.png'')] []]]
   \<and> recorder (run demo initial overlapping_loads) = []
   \<and> length (invocations (run demo initial overlapping_loads)) = 1"
  by code_simp

text \<open>\<open>clearShadow\<close> does not read the ticket.\<close>

lemma run_release_ticket: "run_release fn (s\<lparr>ticket := t\<rparr>) = (run_release fn s)\<lparr>ticket := t\<rparr>"
  by (cases fn) (simp_all add: disableDprSizer_def)

lemma foldl_release_ticket:
  "foldl (\<lambda>s' fn. run_release fn s') (s\<lparr>ticket := t\<rparr>) fns
     = (foldl (\<lambda>s' fn. run_release fn s') s fns)\<lparr>ticket := t\<rparr>"
  by (induction fns arbitrary: s) (simp_all add: run_release_ticket)

lemma clearShadow_ticket: "clearShadow (s\<lparr>ticket := t\<rparr>) = (clearShadow s)\<lparr>ticket := t\<rparr>"
  by (simp add: clearShadow_def run_cleanup_def Let_def foldl_release_ticket split: option.splits)

lemma clearShadow_children:
  "childNodes (clearShadow s) = (if phase s = Mounted \<and> hasShadow s then [] else childNodes s)"
  by (simp add: clearShadow_def Let_def)

text \<open>
  C8 (amended). When a descriptor with no slug is observed (the component not being
  unmounted), the step mints the next ticket and emits \<open>error\<close> with the message
  \<open>Sandbox slug is missing. Cannot load project.\<close> for that ticket; no load is started
  and no controller is touched, so there is no network activity; and the step runs
  \<open>clearShadow\<close>, which removes the children of the root when the host is mounted and
  has a shadow root.
\<close>

theorem missing_slug_goes_to_error:
  "phase s \<noteq> Unmounted \<Longrightarrow>
   step p s (Change [] ep) =
     (clearShadow s)\<lparr>ticket := Suc (ticket s),
       emitted := emitted s @
         [(Failed, \<lparr>slug = [], entryPoint = ep, ticketValue = Suc (ticket s),
                    extra = ErrorMessage ''Sandbox slug is missing. Cannot load project.''\<rparr>)]\<rparr>
   \<and> tasks (step p s (Change [] ep)) = tasks s
   \<and> activeController (step p s (Change [] ep)) = activeController s
   \<and> aborted (step p s (Change [] ep)) = aborted s
   \<and> childNodes (step p s (Change [] ep))
       = (if phase s = Mounted \<and> hasShadow s then [] else childNodes s)"
  by (simp add: on_change_def Let_def clearShadow_ticket clearShadow_children emit_def
      createEventPayload_def)

theorem missing_slug_goes_to_error_witness:
  "phase (run demo initial demo_load) \<noteq> Unmounted
   \<and> tasks (step demo (run demo initial demo_load) (Change [] ''/x'')) = tasks (run demo initial demo_load)
   \<and> activeController (step demo (run demo initial demo_load) (Change [] ''/x''))
       = activeController (run demo initial demo_load)
   \<and> aborted (step demo (run demo initial demo_load) (Change [] ''/x''))
       = aborted (run demo initial demo_load)
   \<and> ticket (step demo (run demo initial demo_load) (Change [] ''/x'')) = 2
   \<and> emitted (step demo (run demo initial demo_load) (Change [] ''/x''))
       = emitted (run demo initial demo_load) @
         [(Failed, \<lparr>slug = [], entryPoint = ''/x'', ticketValue = 2,
                    extra = ErrorMessage ''Sandbox slug is missing. Cannot load project.''\<rparr>)]"
proof -
  have h: "phase (run demo initial demo_load) \<noteq> Unmounted" by code_simp
  have t: "ticket (run demo initial demo_load) = 1" by code_simp
  from missing_slug_goes_to_error [OF h, of demo "''/x''"] h t show ?thesis
    by simp
qed

text \<open>
  The claim as it was stated says that the root's contents are left unchanged; after a
  finished load of \<open>three\<close> the root has children, and the descriptor without slug
  removes them.
\<close>

theorem root_cleared_on_missing_slug:
  "childNodes (run demo initial demo_load)
     = [defaultStyle,
        ElementNode ''DIV'' [(''class'', ''app'')]
          [ElementNode ''IMG'' [(''src'', ''/projects/demo/a/b.png'')] []]]
   \<and> childNodes (step demo (run demo initial demo_load) (Change [] ''/x'')) = []"
  by code_simp

subsection \<open>Executor\<close>

lemma push_release_fields [simp]:
  "recorder (push_release fn s) = recorder s" "invocations (push_release fn s) = invocations s"
  "console (push_release fn s) = console s" "childNodes (push_release fn s) = childNodes s"
  "ticket (push_release fn s) = ticket s" "win (push_release fn s) = win s"
  "sandboxDisposed (push_release fn s) = sandboxDisposed s"
  "warnings (push_release fn s) = warnings s" "fullscreen (push_release fn s) = fullscreen s"
  "dprSizer (push_release fn s) = dprSizer s" "hasShadow (push_release fn s) = hasShadow s"
  "phase (push_release fn s) = phase s"
  by (simp_all add: push_release_def)

lemma wrapper_call_fields [simp]:
  "recorder (snd (wrapper_call tg a cb s)) = recorder s"
  "invocations (snd (wrapper_call tg a cb s)) = invocations s"
  "console (snd (wrapper_call tg a cb s)) = console s"
  "childNodes (snd (wrapper_call tg a cb s)) = childNodes s"
  "ticket (snd (wrapper_call tg a cb s)) = ticket s"
  "sandboxDisposed (snd (wrapper_call tg a cb s)) = sandboxDisposed s"
  "warnings (snd (wrapper_call tg a cb s)) = warnings s"
  "fullscreen (snd (wrapper_call tg a cb s)) = fullscreen s"
  "dprSizer (snd (wrapper_call tg a cb s)) = dprSizer s"
  "hasShadow (snd (wrapper_call tg a cb s)) = hasShadow s"
  "phase (snd (wrapper_call tg a cb s)) = phase s"
  by (cases a; simp add: Let_def split: prod.splits)+

lemma wrapper_call_returns: "\<exists>v. fst (wrapper_call tg a cb s) = Returns v"
  by (cases a) (simp_all add: Let_def split: prod.splits)

lemma invoke_fields:
  "recorder (snd (invoke p rcv a cb s)) = recorder s"
  "invocations (snd (invoke p rcv a cb s)) = invocations s"
  "console (snd (invoke p rcv a cb s)) = console s"
  "childNodes (snd (invoke p rcv a cb s)) = childNodes s"
  "ticket (snd (invoke p rcv a cb s)) = ticket s"
  "sandboxDisposed (snd (invoke p rcv a cb s)) = sandboxDisposed s"
  "warnings (snd (invoke p rcv a cb s)) = warnings s"
  "fullscreen (snd (invoke p rcv a cb s)) = fullscreen s"
  "dprSizer (snd (invoke p rcv a cb s)) = dprSizer s"
  "hasShadow (snd (invoke p rcv a cb s)) = hasShadow s"
  "phase (snd (invoke p rcv a cb s)) = phase s"
  by (simp_all add: invoke_def split: jsval.splits prod.splits)

lemma invoke_completion:
  "fst (invoke p rcv a cb s) =
     (if callable (lookup p rcv (prop_of a)) then fst (invoke p rcv a cb s)
      else Throws (not_callable rcv a))"
  "callable (lookup p rcv (prop_of a)) \<Longrightarrow> \<exists>v. fst (invoke p rcv a cb s) = Returns v"
  using wrapper_call_returns [of _ a cb s]
  by (auto simp: invoke_def callable_def split: jsval.splits prod.splits)

lemma exec_actions_fields:
  "recorder (snd (exec_actions p acts s)) = recorder s @ writes p acts
   \<and> invocations (snd (exec_actions p acts s)) = invocations s
   \<and> console (snd (exec_actions p acts s)) = console s
   \<and> childNodes (snd (exec_actions p acts s)) = childNodes s
   \<and> ticket (snd (exec_actions p acts s)) = ticket s
   \<and> warnings (snd (exec_actions p acts s)) = warnings s
   \<and> fullscreen (snd (exec_actions p acts s)) = fullscreen s
   \<and> hasShadow (snd (exec_actions p acts s)) = hasShadow s
   \<and> phase (snd (exec_actions p acts s)) = phase s
   \<and> fst (exec_actions p acts s) = thrown p acts"
proof (induction p acts s rule: exec_actions.induct)
  case (4 p rcv a cb rest s)
  show ?case
  proof (cases "invoke p rcv a cb s")
    case (Pair r s')
    with invoke_fields [of p rcv a cb s]
    have f: "recorder s' = recorder s" "invocations s' = invocations s" "console s' = console s"
      "childNodes s' = childNodes s" "ticket s' = ticket s" "warnings s' = warnings s"
      "fullscreen s' = fullscreen s" "hasShadow s' = hasShadow s" "phase s' = phase s"
      by simp_all
    show ?thesis
    proof (cases "callable (lookup p rcv (prop_of a))")
      case True
      with invoke_completion(2) [of p rcv a cb s] Pair obtain v where "r = Returns v" by auto
      with Pair f 4 True show ?thesis by simp
    next
      case False
      with invoke_completion(1) [of p rcv a cb s] Pair have "r = Throws (not_callable rcv a)"
        by simp
      with Pair f False show ?thesis by simp
    qed
  qed
qed simp_all

lemma function_call_strict:
  "function_call (use_strict @ body) thisArg args = \<lparr>this_value = thisArg, arguments = args\<rparr>"
  by (simp add: function_call_def startsWith_def)

lemma run_script_fields:
  assumes "ticket s = t" "compiles p entry"
  shows "fst (run_script p t entry s) = None
     \<and> recorder (snd (run_script p t entry s)) = recorder s @ writes p (behaviour p entry)
     \<and> invocations (snd (run_script p t entry s)) = invocations s @ [root_frame p]
     \<and> childNodes (snd (run_script p t entry s)) = childNodes s
     \<and> ticket (snd (run_script p t entry s)) = t
     \<and> console (snd (run_script p t entry s)) = console s @ logged p entry
     \<and> warnings (snd (run_script p t entry s)) = warnings s
     \<and> fullscreen (snd (run_script p t entry s)) = fullscreen s"
proof -
  let ?s1 = "s\<lparr>invocations := invocations s @ [root_frame p]\<rparr>"
  obtain r s2 where e: "exec_actions p (behaviour p entry) ?s1 = (r, s2)"
    by (cases "exec_actions p (behaviour p entry) ?s1")
  with exec_actions_fields [of p "behaviour p entry" ?s1]
  have f: "recorder s2 = recorder s @ writes p (behaviour p entry)"
    "invocations s2 = invocations s @ [root_frame p]" "childNodes s2 = childNodes s" "ticket s2 = ticket s"
    "console s2 = console s" "warnings s2 = warnings s" "fullscreen s2 = fullscreen s"
    "r = thrown p (behaviour p entry)"
    by simp_all
  from assms e f show ?thesis
    by (cases r)
       (auto simp: run_script_def behaviour_def compiles_def function_call_strict root_frame_def
          logged_def split: option.splits sum.splits)
qed

lemma run_scripts_fields:
  assumes "ticket s = t" "list_all (compiles p) bucket"
  shows "fst (run_scripts p t bucket s) = None
     \<and> recorder (snd (run_scripts p t bucket s))
         = recorder s @ concat (map (\<lambda>e. writes p (behaviour p e)) bucket)
     \<and> invocations (snd (run_scripts p t bucket s))
         = invocations s @ replicate (length bucket) (root_frame p)
     \<and> childNodes (snd (run_scripts p t bucket s)) = childNodes s
     \<and> ticket (snd (run_scripts p t bucket s)) = t
     \<and> console (snd (run_scripts p t bucket s)) = console s @ concat (map (logged p) bucket)
     \<and> warnings (snd (run_scripts p t bucket s)) = warnings s
     \<and> fullscreen (snd (run_scripts p t bucket s)) = fullscreen s"
  using assms
proof (induction bucket arbitrary: s)
  case Nil
  then show ?case by simp
next
  case (Cons entry rest)
  obtain r s' where e: "run_script p t entry s = (r, s')" by (cases "run_script p t entry s")
  from Cons.prems have c: "compiles p entry" "list_all (compiles p) rest" by simp_all
  from run_script_fields [OF Cons.prems(1) c(1)] e
  have f: "r = None" "recorder s' = recorder s @ writes p (behaviour p entry)"
    "invocations s' = invocations s @ [root_frame p]" "childNodes s' = childNodes s" "ticket s' = t"
    "console s' = console s @ logged p entry" "warnings s' = warnings s" "fullscreen s' = fullscreen s"
    by simp_all
  from Cons.IH [OF f(5) c(2)] e f show ?case
    by (simp add: replicate_app_Cons_same)
qed

lemma run_scripts_ctl:
  "run_scripts p t bucket s = (r, s') \<Longrightarrow> emitted s' = emitted s \<and> tasks s' = tasks s \<and> phase s' = phase s"
  using run_scripts_effect [of p t bucket s] by (simp add: ctl_def)

lemma run_scripts_step:
  "fst (run_script p t entry s) = None \<Longrightarrow>
   run_scripts p t (entry # rest) s = run_scripts p t rest (snd (run_script p t entry s))"
  by (cases "run_script p t entry s") simp

lemma apply_sizer_fields [simp]:
  "recorder (apply_sizer p s) = recorder s" "invocations (apply_sizer p s) = invocations s"
  "console (apply_sizer p s) = console s" "childNodes (apply_sizer p s) = childNodes s"
  "ticket (apply_sizer p s) = ticket s" "emitted (apply_sizer p s) = emitted s"
  "tasks (apply_sizer p s) = tasks s" "win (apply_sizer p s) = win s"
  "sandboxDisposed (apply_sizer p s) = sandboxDisposed s" "phase (apply_sizer p s) = phase s"
  by (simp_all add: apply_sizer_def enableDprSizer_def push_release_def)

lemma loop_end:
  assumes "ticket s = t" "list_all (compiles p) bucket"
  shows "tasks (inject_loop p t sl ep b [] bucket s) = (tasks s)(t \<mapsto> AwaitInject sl ep None)
     \<and> ticket (inject_loop p t sl ep b [] bucket s) = t
     \<and> emitted (inject_loop p t sl ep b [] bucket s) = emitted s
     \<and> childNodes (inject_loop p t sl ep b [] bucket s) = childNodes s
     \<and> recorder (inject_loop p t sl ep b [] bucket s)
         = recorder s @ concat (map (\<lambda>e. writes p (behaviour p e)) bucket)
     \<and> console (inject_loop p t sl ep b [] bucket s) = console s @ concat (map (logged p) bucket)
     \<and> invocations (inject_loop p t sl ep b [] bucket s)
         = invocations s @ replicate (length bucket) (root_frame p)"
proof -
  obtain r s' where e: "run_scripts p t bucket s = (r, s')" by (cases "run_scripts p t bucket s")
  from run_scripts_fields [OF assms] run_scripts_ctl [OF e] e assms
  show ?thesis
    by (simp add: inject_loop_def settle_inject_def)
qed

lemma loaded_after_inject:
  assumes "tasks s t = Some (AwaitInject sl ep None)" "ticket s = t"
  shows "emitted (step p s (Resume t)) = emitted s @ [(Loaded, createEventPayload sl ep t NoExtra)]"
  using assms by (simp add: resume_def resume_inject_def emit_def)

lemma uninterrupted_injection:
  assumes "tasks s t = Some (AwaitClone sl ep b child rest bucket)" "ticket s = t"
    "cloneChildren p b (child # rest) bucket = Inr (outs, bucket')" "list_all (compiles p) bucket'"
  shows "tasks (run p s (replicate (Suc (length rest)) (Resume t))) t = Some (AwaitInject sl ep None)
     \<and> ticket (run p s (replicate (Suc (length rest)) (Resume t))) = t
     \<and> emitted (run p s (replicate (Suc (length rest)) (Resume t))) = emitted s
     \<and> childNodes (run p s (replicate (Suc (length rest)) (Resume t))) = childNodes s @ outs
     \<and> recorder (run p s (replicate (Suc (length rest)) (Resume t)))
         = recorder s @ concat (map (\<lambda>e. writes p (behaviour p e)) bucket')
     \<and> invocations (run p s (replicate (Suc (length rest)) (Resume t)))
         = invocations s @ replicate (length bucket') (root_frame p)"
  using assms
proof (induction rest arbitrary: s child bucket outs)
  case Nil
  from Nil.prems(3) obtain c where
    c1: "cloneNodeTree p b child bucket = Inr (c, bucket')" and
    outs: "outs = (case c of None \<Rightarrow> [] | Some k \<Rightarrow> [k])"
    by (auto split: sum.splits prod.splits)
  let ?s' = "(case c of None \<Rightarrow> s | Some k \<Rightarrow> s\<lparr>childNodes := childNodes s @ [k]\<rparr>)"
  have f: "ticket ?s' = t" "tasks ?s' = tasks s" "emitted ?s' = emitted s" "recorder ?s' = recorder s"
    "invocations ?s' = invocations s" "console ?s' = console s" "childNodes ?s' = childNodes s @ outs"
    using Nil.prems(2) outs by (simp_all split: option.splits)
  have "step p s (Resume t) = inject_loop p t sl ep b [] bucket' ?s'"
    using Nil.prems(1) c1 by (simp add: resume_def resume_clone_def)
  with loop_end [OF f(1) Nil.prems(4), of sl ep b] f show ?case
    by (simp add: run_def)
next
  case (Cons c2 r)
  from Cons.prems(3) obtain c b1 cs where
    c1: "cloneNodeTree p b child bucket = Inr (c, b1)" and
    c2: "cloneChildren p b (c2 # r) b1 = Inr (cs, bucket')" and
    outs: "outs = (case c of None \<Rightarrow> cs | Some k \<Rightarrow> k # cs)"
    by (auto split: sum.splits prod.splits)
  let ?s' = "(case c of None \<Rightarrow> s | Some k \<Rightarrow> s\<lparr>childNodes := childNodes s @ [k]\<rparr>)"
  let ?s1 = "step p s (Resume t)"
  have f: "ticket ?s' = t" "tasks ?s' = tasks s" "emitted ?s' = emitted s" "recorder ?s' = recorder s"
    "invocations ?s' = invocations s"
    "childNodes ?s' @ cs = childNodes s @ outs"
    using Cons.prems(2) outs by (simp_all split: option.splits)
  have s1: "?s1 = ?s'\<lparr>tasks := (tasks ?s')(t \<mapsto> AwaitClone sl ep b c2 r b1)\<rparr>"
    using Cons.prems(1) c1 f(1) by (simp add: resume_def resume_clone_def inject_loop_def)
  have t1: "tasks ?s1 t = Some (AwaitClone sl ep b c2 r b1)" "ticket ?s1 = t"
    using s1 f by simp_all
  from Cons.IH [OF t1 c2 Cons.prems(4)] s1 f show ?case
    by (simp add: run_Cons)
qed

text \<open>
  C5. When the load is current and every script compiles, no exception leaves the loop
  over the scripts: every script is invoked, each one records what it writes before its
  own exception, a script that throws gets its line on the console, and the scripts after
  it run as if it had not thrown. A load that is suspended at its first top-level child and
  is resumed without a descriptor change in between then emits \<open>loaded\<close> for its
  ticket. (A \<open>SyntaxError\<close> of \<open>new Function\<close> is raised outside the \<open>try\<close> and
  is not an exception of the run.)
\<close>

theorem script_failure_is_isolated:
  "(ticket s = t \<and> list_all (compiles p) bucket \<longrightarrow>
       fst (run_scripts p t bucket s) = None
     \<and> invocations (snd (run_scripts p t bucket s))
         = invocations s @ replicate (length bucket) (root_frame p)
     \<and> recorder (snd (run_scripts p t bucket s))
         = recorder s @ concat (map (\<lambda>e. writes p (behaviour p e)) bucket)
     \<and> console (snd (run_scripts p t bucket s)) = console s @ concat (map (logged p) bucket))
   \<and> (tasks s t = Some (AwaitClone sl ep b child rest bucket0) \<and> ticket s = t
        \<and> cloneChildren p b (child # rest) bucket0 = Inr (outs, bucket)
        \<and> list_all (compiles p) bucket \<longrightarrow>
       emitted (run p s (replicate (Suc (Suc (length rest))) (Resume t)))
         = emitted s @ [(Loaded, createEventPayload sl ep t NoExtra)]
     \<and> recorder (run p s (replicate (Suc (Suc (length rest))) (Resume t)))
         = recorder s @ concat (map (\<lambda>e. writes p (behaviour p e)) bucket))"
proof -
  have first: "ticket s = t \<and> list_all (compiles p) bucket \<longrightarrow>
       fst (run_scripts p t bucket s) = None
     \<and> invocations (snd (run_scripts p t bucket s))
         = invocations s @ replicate (length bucket) (root_frame p)
     \<and> recorder (snd (run_scripts p t bucket s))
         = recorder s @ concat (map (\<lambda>e. writes p (behaviour p e)) bucket)
     \<and> console (snd (run_scripts p t bucket s)) = console s @ concat (map (logged p) bucket)"
    using run_scripts_fields [of s t p bucket] by simp
  have second: "tasks s t = Some (AwaitClone sl ep b child rest bucket0) \<and> ticket s = t
        \<and> cloneChildren p b (child # rest) bucket0 = Inr (outs, bucket)
        \<and> list_all (compiles p) bucket \<longrightarrow>
       emitted (run p s (replicate (Suc (Suc (length rest))) (Resume t)))
         = emitted s @ [(Loaded, createEventPayload sl ep t NoExtra)]
     \<and> recorder (run p s (replicate (Suc (Suc (length rest))) (Resume t)))
         = recorder s @ concat (map (\<lambda>e. writes p (behaviour p e)) bucket)"
  proof
    assume a: "tasks s t = Some (AwaitClone sl ep b child rest bucket0) \<and> ticket s = t
        \<and> cloneChildren p b (child # rest) bucket0 = Inr (outs, bucket)
        \<and> list_all (compiles p) bucket"
    let ?n = "Suc (length rest)"
    let ?s' = "run p s (replicate ?n (Resume t))"
    from a uninterrupted_injection [of s t sl ep b child rest bucket0 p outs bucket]
    have u: "tasks ?s' t = Some (AwaitInject sl ep None)" "ticket ?s' = t" "emitted ?s' = emitted s"
      "recorder ?s' = recorder s @ concat (map (\<lambda>e. writes p (behaviour p e)) bucket)"
      by simp_all
    have split: "replicate (Suc ?n) (Resume t) = replicate ?n (Resume t) @ [Resume t]"
      by (simp add: replicate_append_same)
    have r: "run p s (replicate (Suc ?n) (Resume t)) = step p ?s' (Resume t)"
      unfolding split run_append by (simp add: run_def)
    have "recorder (step p ?s' (Resume t)) = recorder ?s'"
      using u(1,2) by (simp add: resume_def resume_inject_def emit_def finish_def)
    with loaded_after_inject [OF u(1) u(2), of p] u r
    show "emitted (run p s (replicate (Suc (Suc (length rest))) (Resume t)))
         = emitted s @ [(Loaded, createEventPayload sl ep t NoExtra)]
     \<and> recorder (run p s (replicate (Suc (Suc (length rest))) (Resume t)))
         = recorder s @ concat (map (\<lambda>e. writes p (behaviour p e)) bucket)"
      by simp
  qed
  from first second show ?thesis by blast
qed

theorem script_failure_is_isolated_witness:
  "thrown demo (behaviour demo \<lparr>code = ''B'', runner = None\<rparr>) = Some (Error ''boom'')
   \<and> recorder (run demo initial demo_fetched) = []
   \<and> recorder (run demo (run demo initial demo_fetched) (replicate 4 (Resume 1))) = [''1'', ''2'', ''3'']
   \<and> emitted (run demo (run demo initial demo_fetched) (replicate 4 (Resume 1)))
       = emitted (run demo initial demo_fetched) @
         [(Loaded, createEventPayload ''demo'' ''/projects/demo/index.html'' 1 NoExtra)]"
proof -
  have h: "tasks (run demo initial demo_fetched) 1
      = Some (AwaitClone ''demo'' ''/projects/demo/index.html'' demo_base three_first three_rest [])"
    "ticket (run demo initial demo_fetched) = 1"
    "cloneChildren demo demo_base (three_first # three_rest) [] = Inr (three_rendered, demo_bucket)"
    "list_all (compiles demo) demo_bucket"
    by code_simp+
  have v: "thrown demo (behaviour demo \<lparr>code = ''B'', runner = None\<rparr>) = Some (Error ''boom'')"
    "recorder (run demo initial demo_fetched) = []"
    "concat (map (\<lambda>e. writes demo (behaviour demo e)) demo_bucket) = [''1'', ''2'', ''3'']"
    "Suc (Suc (length three_rest)) = 4"
    by code_simp+
  from script_failure_is_isolated [where s = "run demo initial demo_fetched" and t = 1
      and p = demo and bucket = demo_bucket and sl = "''demo''"
      and ep = "''/projects/demo/index.html''" and b = demo_base
      and child = three_first and rest = three_rest and ?bucket0.0 = "[]"
      and outs = three_rendered]
  have "emitted (run demo (run demo initial demo_fetched)
            (replicate (Suc (Suc (length three_rest))) (Resume 1)))
         = emitted (run demo initial demo_fetched) @
           [(Loaded, createEventPayload ''demo'' ''/projects/demo/index.html'' 1 NoExtra)]
     \<and> recorder (run demo (run demo initial demo_fetched)
            (replicate (Suc (Suc (length three_rest))) (Resume 1)))
         = recorder (run demo initial demo_fetched)
           @ concat (map (\<lambda>e. writes demo (behaviour demo e)) demo_bucket)"
    using h by blast
  with v show ?thesis
    by simp
qed

text \<open>
  C6. The scripts bucket that the transformer returns is the bucket it was given followed
  by one ScriptUnit for each executable script element that it reaches, in document order,
  with the fetched body for an element with \<open>src\<close> and the inline text otherwise. The
  loop over the bucket runs the first script to its end and then the rest on the state it
  left, so with every script compiling the recorded values are those of the scripts in
  bucket order; a load that is resumed child after child attaches the clones in order and
  leaves exactly these records.
\<close>

theorem scripts_run_in_document_order:
  "(cloneChildren p b nodes bucket0 = Inr (outs, bucket) \<longrightarrow>
      bucket = bucket0 @ map (\<lambda>e. \<lparr>code = source_of p b e, runner = None\<rparr>)
                           (concat (map script_elements nodes)))
   \<and> (fst (run_script p t entry s) = None \<longrightarrow>
        run_scripts p t (entry # later) s = run_scripts p t later (snd (run_script p t entry s)))
   \<and> (ticket s = t \<and> list_all (compiles p) bucket \<longrightarrow>
        recorder (snd (run_scripts p t bucket s))
          = recorder s @ concat (map (\<lambda>e. writes p (behaviour p e)) bucket))
   \<and> (tasks s t = Some (AwaitClone sl ep b child rest bucket0) \<and> ticket s = t
        \<and> cloneChildren p b (child # rest) bucket0 = Inr (outs, bucket)
        \<and> list_all (compiles p) bucket \<longrightarrow>
        childNodes (run p s (replicate (Suc (length rest)) (Resume t))) = childNodes s @ outs
      \<and> recorder (run p s (replicate (Suc (length rest)) (Resume t)))
          = recorder s @ concat (map (\<lambda>e. writes p (behaviour p e)) bucket))"
  using clone_bucket(2) [of p b nodes bucket0 outs bucket]
    run_scripts_step [of p t entry s later]
    run_scripts_fields [of s t p bucket]
    uninterrupted_injection [of s t sl ep b child rest bucket0 p outs bucket]
  by blast

theorem scripts_run_in_document_order_witness:
  "cloneChildren demo demo_base (demo_parse ''three'') []
     = Inr ([ElementNode ''DIV'' [(''class'', ''app'')]
               [ElementNode ''IMG'' [(''src'', ''/projects/demo/a/b.png'')] []]], demo_bucket)
   \<and> demo_bucket = map (\<lambda>e. \<lparr>code = source_of demo demo_base e, runner = None\<rparr>)
                      (concat (map script_elements (demo_parse ''three'')))
   \<and> concat (map script_elements (demo_parse ''three''))
       = [ElementNode ''SCRIPT'' [] [TextNode ''A''],
          ElementNode ''SCRIPT'' [(''src'', ''b.js'')] [],
          ElementNode ''SCRIPT'' [(''type'', '' Text/JavaScript '')] [TextNode ''C'']]
   \<and> recorder (run demo initial demo_load) = [''1'', ''2'', ''3'']"
proof -
  have h: "cloneChildren demo demo_base (demo_parse ''three'') []
     = Inr ([ElementNode ''DIV'' [(''class'', ''app'')]
               [ElementNode ''IMG'' [(''src'', ''/projects/demo/a/b.png'')] []]], demo_bucket)"
    by code_simp
  have v: "concat (map script_elements (demo_parse ''three''))
       = [ElementNode ''SCRIPT'' [] [TextNode ''A''],
          ElementNode ''SCRIPT'' [(''src'', ''b.js'')] [],
          ElementNode ''SCRIPT'' [(''type'', '' Text/JavaScript '')] [TextNode ''C'']]"
    "recorder (run demo initial demo_load) = [''1'', ''2'', ''3'']"
    by code_simp+
  from scripts_run_in_document_order [of demo demo_base "demo_parse ''three''" "[]" _ demo_bucket] h
  have "demo_bucket = map (\<lambda>e. \<lparr>code = source_of demo demo_base e, runner = None\<rparr>)
                      (concat (map script_elements (demo_parse ''three'')))"
    by simp
  with h v show ?thesis by simp
qed

text \<open>The frames of the invocations: only \<open>run_script\<close> adds one, and it is the root frame.\<close>

lemma exec_actions_frames: "invocations (snd (exec_actions p acts s)) = invocations s"
  using exec_actions_fields by blast

lemma run_script_frames:
  "set (invocations (snd (run_script p t entry s))) \<subseteq> insert (root_frame p) (set (invocations s))"
proof -
  have a: "\<And>r s1 x y. exec_actions p r s1 = (x, y) \<Longrightarrow> invocations y = invocations s1"
    using exec_actions_frames by (metis snd_conv)
  show ?thesis
    by (auto simp: run_script_def Let_def function_call_strict root_frame_def
        split: option.splits sum.splits prod.splits dest!: a)
qed

lemma run_scripts_frames:
  "set (invocations (snd (run_scripts p t bucket s))) \<subseteq> insert (root_frame p) (set (invocations s))"
proof (induction bucket arbitrary: s)
  case Nil
  then show ?case by auto
next
  case (Cons entry rest)
  obtain r s' where e: "run_script p t entry s = (r, s')" by (cases "run_script p t entry s")
  with run_script_frames [of p t entry s]
  have "set (invocations s') \<subseteq> insert (root_frame p) (set (invocations s))" by simp
  with Cons [of s'] e show ?case
    by (cases r) auto
qed

lemma inject_loop_frames:
  "set (invocations (inject_loop p t sl ep b nodes bucket s)) \<subseteq> insert (root_frame p) (set (invocations s))"
proof -
  obtain r s' where e: "run_scripts p t bucket s = (r, s')" by (cases "run_scripts p t bucket s")
  with run_scripts_frames [of p t bucket s]
  have "set (invocations s') \<subseteq> insert (root_frame p) (set (invocations s))" by simp
  with e show ?thesis
    by (auto simp: inject_loop_def settle_inject_def split: list.splits option.splits)
qed

lemma injectHtml_frames:
  "set (invocations (injectHtml p html b t sl ep s)) \<subseteq> insert (root_frame p) (set (invocations s))"
  using inject_loop_frames [of p t sl ep b "parseFromString p html" "[]" "prepare_root s"]
  by (auto simp: injectHtml_def settle_inject_def)

lemma on_catch_frames [simp]: "invocations (on_catch t sl ep e s) = invocations s"
  by (simp add: on_catch_def emit_def)

lemma finish_frames [simp]: "invocations (finish t s) = invocations s"
  by (simp add: finish_def)

lemma resume_frames:
  "set (invocations (resume p t s)) \<subseteq> insert (root_frame p) (set (invocations s))"
proof (cases "tasks s t")
  case None
  then show ?thesis by (auto simp: resume_def)
next
  case (Some st)
  show ?thesis
  proof (cases st)
    case (AwaitFetch sl ep)
    with Some injectHtml_frames [of p _ _ t sl ep s] show ?thesis
      by (auto simp: resume_def resume_fetch_def split: sum.splits)
  next
    case (AwaitClone sl ep b child rest bucket)
    show ?thesis
    proof (cases "cloneNodeTree p b child bucket")
      case (Inl e)
      with Some AwaitClone show ?thesis
        by (auto simp: resume_def resume_clone_def settle_inject_def)
    next
      case (Inr x)
      obtain cloned bucket' where x: "x = (cloned, bucket')" by (cases x)
      let ?s' = "(case cloned of None \<Rightarrow> s | Some c \<Rightarrow> s\<lparr>childNodes := childNodes s @ [c]\<rparr>)"
      have "invocations ?s' = invocations s" by (simp split: option.splits)
      with inject_loop_frames [of p t sl ep b rest bucket' ?s'] Some AwaitClone Inr x
      show ?thesis
        by (simp add: resume_def resume_clone_def)
    qed
  next
    case (AwaitInject sl ep res)
    with Some show ?thesis
      by (auto simp: resume_def resume_inject_def emit_def split: option.splits)
  qed
qed

lemma run_callback_frames [simp]: "invocations (run_callback p cb s) = invocations s"
  by (simp add: run_callback_def exec_actions_frames)

lemma run_handler_frames [simp]: "invocations (run_handler p f s) = invocations s"
  by (simp add: run_handler_def split: handler.splits)

lemma foldl_callbacks_frames [simp]:
  "invocations (foldl (\<lambda>s' l. run_callback p (f l) s') s ls) = invocations s"
  by (induction ls arbitrary: s) simp_all

lemma on_fullscreen_frames [simp]: "invocations (on_fullscreen p b s) = invocations s"
  by (simp add: on_fullscreen_def enableDprSizer_def disableDprSizer_def)

lemma step_frames:
  "set (invocations (step p s e)) \<subseteq> insert (root_frame p) (set (invocations s))"
proof (cases e)
  case (Resume t)
  with resume_frames [of p t s] show ?thesis by simp
next
  case (Change sl ep)
  then show ?thesis
    by (auto simp: on_change_def Let_def emit_def loadProject_def split: option.splits)
next
  case Unmount
  then show ?thesis
    by (auto simp: onBeforeUnmount_def Let_def disableDprSizer_def split: option.splits)
next
  case (AbortSettle t)
  then show ?thesis
    by (auto simp: abort_settle_def split: option.splits stage.splits)
next
  case (Fire h)
  then show ?thesis by (auto simp: fire_def split: option.splits)
next
  case (Frame h)
  then show ?thesis by (auto simp: frame_fires_def split: option.splits)
next
  case (Dispatch tg ty)
  then show ?thesis by (auto simp: dispatch_def)
next
  case (Resize i)
  then show ?thesis by (auto simp: resize_def split: option.splits)
qed auto

lemma run_frames: "set (invocations (run p initial es)) \<subseteq> {root_frame p}"
proof (induction es rule: rev_induct)
  case Nil
  then show ?case by (simp add: run_def initial_def)
next
  case (snoc e es)
  with step_frames [of p "run p initial es" e] show ?case
    by (auto simp: run_append run_Cons run_Nil)
qed

text \<open>
  C10. In every state that the component reaches, every invocation of a compiled runner
  has \<open>this\<close> bound to the shadow root, the same value as its first argument
  \<open>sandboxRoot\<close>; and since the body starts with the strict directive, the call hands
  \<open>thisArg\<close> to the body as it is (a sloppy function would see the global object for
  \<open>undefined\<close>).
\<close>

theorem runner_this_is_shadow_root:
  "(\<forall>f \<in> set (invocations (run p initial es)).
       this_value f = ShadowRoot \<and> hd (arguments f) = ShadowRoot)
   \<and> this_value (function_call (use_strict @ body) thisArg args) = thisArg"
  using run_frames [of p es] by (auto simp: root_frame_def runner_arguments_def function_call_strict)

theorem runner_this_is_shadow_root_witness:
  "length (invocations (run demo initial demo_load)) = 3
   \<and> this_value (invocations (run demo initial demo_load) ! 0) = ShadowRoot
   \<and> this_value (invocations (run demo initial demo_load) ! 1) = ShadowRoot
   \<and> this_value (invocations (run demo initial demo_load) ! 2) = ShadowRoot
   \<and> hd (arguments (invocations (run demo initial demo_load) ! 0)) = ShadowRoot"
proof -
  have h: "length (invocations (run demo initial demo_load)) = 3" by code_simp
  then have "\<forall>i < 3. invocations (run demo initial demo_load) ! i
      \<in> set (invocations (run demo initial demo_load))"
    by simp
  with runner_this_is_shadow_root [of demo demo_load] h show ?thesis
    by simp
qed

subsection \<open>Ledger and instrumented scope\<close>

lemma lookup_window:
  "lookup p ViaWindow (prop_of a) =
     (if a = NewResizeObserver \<and> \<not> hasResizeObserver p then Undefined
      else Wrapper Window (prop_of a))"
  by (cases a) (auto simp: lookup_def window_get_def real_has_def)

lemma lookup_document:
  "lookup p ViaDocument (prop_of a) =
     (case a of AddEventListener ty capture \<Rightarrow> Wrapper Document (prop_of a) | _ \<Rightarrow> Undefined)"
  by (cases a) (auto simp: lookup_def document_get_def real_has_def)

lemma lookup_bare:
  "lookup p Bare (prop_of a) =
     (case a of
        AddEventListener ty capture \<Rightarrow> RealFunction Window (prop_of a)
      | NewResizeObserver \<Rightarrow>
          (if hasResizeObserver p then Wrapper Window (prop_of a) else Undefined)
      | _ \<Rightarrow> Wrapper Window (prop_of a))"
  by (cases a)
     (auto simp: lookup_def scope_lookup_def runner_params_def runner_arguments_def
        window_get_def real_has_def)

lemma wrapper_effect:
  assumes "sandboxCleanup s = Some fns" "schedules a \<longrightarrow> \<not> sandboxDisposed s"
  shows "\<exists>v. wrapper_call tg a cb s =
     (Returns v, s\<lparr>win := real_operation tg a cb (win s),
                   sandboxCleanup := Some (fns @ [matching_release tg a cb (win s)])\<rparr>)"
  using assms
  by (cases a)
     (simp_all add: schedules_def push_release_def real_setTimer_def real_requestAnimationFrame_def
        real_ResizeObserver_def)

lemma wrapper_inert:
  "sandboxDisposed s \<Longrightarrow> schedules a \<Longrightarrow> wrapper_call tg a cb s = (Returns (Number (- 1)), s)"
  by (cases a) (simp_all add: schedules_def)

lemma operation_live:
  "live (s\<lparr>win := real_operation tg a cb (win s), sandboxCleanup := l\<rparr>)
        (matching_release tg a cb (win s))"
  by (cases a)
     (auto simp: real_setTimer_def real_requestAnimationFrame_def real_addEventListener_def
        real_ResizeObserver_def)

lemma live_after_release: "\<not> live (run_release r s) r"
  by (cases r)
     (auto simp: real_clearTimer_def real_cancelAnimationFrame_def real_removeEventListener_def
        real_disconnect_def disableDprSizer_def)

text \<open>
  C3 (amended). A call that sets a timeout or an interval, requests an animation frame
  or constructs a resize observer (where the platform has one) reaches a wrapper, through
  the instrumented window and as a bare call alike; a call that adds an event listener
  does so through the instrumented window and the instrumented document, and as a bare
  call it reaches the real window. A call that reaches a wrapper does not throw; unless it
  is a timer or frame call on a root that is marked disposed, it performs the real
  operation, so that the resource is held by the browser, and appends to the ledger the
  release action that clears that resource. A timer or frame call on a disposed root
  returns \<open>-1\<close> and does nothing else.
\<close>

theorem instrumented_calls_are_recorded:
  "lookup p ViaWindow (prop_of a) =
     (if a = NewResizeObserver \<and> \<not> hasResizeObserver p then Undefined
      else Wrapper Window (prop_of a))
   \<and> lookup p ViaDocument (prop_of a) =
     (case a of AddEventListener ty capture \<Rightarrow> Wrapper Document (prop_of a) | _ \<Rightarrow> Undefined)
   \<and> lookup p Bare (prop_of a) =
     (case a of
        AddEventListener ty capture \<Rightarrow> RealFunction Window (prop_of a)
      | NewResizeObserver \<Rightarrow>
          (if hasResizeObserver p then Wrapper Window (prop_of a) else Undefined)
      | _ \<Rightarrow> Wrapper Window (prop_of a))
   \<and> (\<forall>tg prop fns. lookup p rcv (prop_of a) = Wrapper tg prop \<and> sandboxCleanup s = Some fns
          \<and> (schedules a \<longrightarrow> \<not> sandboxDisposed s) \<longrightarrow>
         (\<exists>v. fst (invoke p rcv a cb s) = Returns v)
       \<and> win (snd (invoke p rcv a cb s)) = real_operation tg a cb (win s)
       \<and> sandboxCleanup (snd (invoke p rcv a cb s))
           = Some (fns @ [matching_release tg a cb (win s)])
       \<and> live (snd (invoke p rcv a cb s)) (matching_release tg a cb (win s))
       \<and> \<not> live (run_release (matching_release tg a cb (win s)) (snd (invoke p rcv a cb s)))
                (matching_release tg a cb (win s)))
   \<and> (\<forall>tg prop. lookup p rcv (prop_of a) = Wrapper tg prop \<and> schedules a \<and> sandboxDisposed s \<longrightarrow>
         invoke p rcv a cb s = (Returns (Number (- 1)), s))"
proof -
  have w: "(\<exists>v. fst (invoke p rcv a cb s) = Returns v)
       \<and> win (snd (invoke p rcv a cb s)) = real_operation tg a cb (win s)
       \<and> sandboxCleanup (snd (invoke p rcv a cb s))
           = Some (fns @ [matching_release tg a cb (win s)])
       \<and> live (snd (invoke p rcv a cb s)) (matching_release tg a cb (win s))
       \<and> \<not> live (run_release (matching_release tg a cb (win s)) (snd (invoke p rcv a cb s)))
                (matching_release tg a cb (win s))"
    if h: "lookup p rcv (prop_of a) = Wrapper tg nm" "sandboxCleanup s = Some fns"
      "schedules a \<longrightarrow> \<not> sandboxDisposed s" for tg nm fns
  proof -
    from wrapper_effect [OF h(2) h(3), of tg cb] obtain v where
      "wrapper_call tg a cb s =
         (Returns v, s\<lparr>win := real_operation tg a cb (win s),
                       sandboxCleanup := Some (fns @ [matching_release tg a cb (win s)])\<rparr>)"
      by blast
    with h(1) have i: "invoke p rcv a cb s =
         (Returns v, s\<lparr>win := real_operation tg a cb (win s),
                       sandboxCleanup := Some (fns @ [matching_release tg a cb (win s)])\<rparr>)"
      by (simp add: invoke_def)
    show ?thesis
      unfolding i using operation_live [where s = s and tg = tg and a = a and cb = cb] live_after_release by simp
  qed
  have d: "invoke p rcv a cb s = (Returns (Number (- 1)), s)"
    if g: "lookup p rcv (prop_of a) = Wrapper tg nm" "schedules a" "sandboxDisposed s" for tg nm
    using g wrapper_inert [of s a tg cb] by (simp add: invoke_def)
  from w d lookup_window [of p a] lookup_document [of p a] lookup_bare [of p a]
  show ?thesis by blast
qed

theorem instrumented_calls_are_recorded_witness:
  "lookup demo Bare (prop_of SetInterval) = Wrapper Window ''setInterval''
   \<and> sandboxCleanup (prepare_root initial) = Some []
   \<and> \<not> sandboxDisposed (prepare_root initial)
   \<and> sandboxCleanup (snd (invoke demo Bare SetInterval (Callback 1 []) (prepare_root initial)))
       = Some [ClearInterval 1]
   \<and> timers (win (snd (invoke demo Bare SetInterval (Callback 1 []) (prepare_root initial))))
       = [(1, True, Guarded (Callback 1 []))]"
proof -
  have h: "lookup demo Bare (prop_of SetInterval) = Wrapper Window ''setInterval''"
    "sandboxCleanup (prepare_root initial) = Some []"
    "\<not> sandboxDisposed (prepare_root initial)"
    by code_simp+
  have v: "matching_release Window SetInterval (Callback 1 []) (win (prepare_root initial))
       = ClearInterval 1"
    "timers (real_operation Window SetInterval (Callback 1 []) (win (prepare_root initial)))
       = [(1, True, Guarded (Callback 1 []))]"
    by code_simp+
  from instrumented_calls_are_recorded [of demo SetInterval Bare "prepare_root initial" "Callback 1 []"] h v
  show ?thesis by simp
qed

text \<open>
  The claim as it was stated includes every bare call and knows no exception for a
  disposed root. \<open>addEventListener\<close> is not among the parameters of the runner, so as
  a bare identifier it is the real function: after the load of \<open>leak\<close> the browser
  holds the listener, and the ledger has no release for it. After the unmount the listener
  is invoked by a \<open>resize\<close> event and sets a timeout through the instrumented window:
  the root is disposed, no timer is created and nothing is recorded in the ledger.
\<close>

theorem bare_listener_leaves_no_release:
  "lookup leaky Bare (prop_of (AddEventListener ''resize'' False))
     = RealFunction Window ''addEventListener''
   \<and> listeners (win (run leaky initial leak_load))
       = [(Window, ''resize'',
           Callback 5 [Record ''leak'', Call ViaWindow SetTimeout (Callback 6 [Record ''late''])],
           False)]
   \<and> sandboxCleanup (run leaky initial leak_load) = Some []
   \<and> sandboxDisposed (run leaky initial (leak_load @ [Unmount]))
   \<and> recorder (run leaky initial (leak_load @ [Unmount, Dispatch Window ''resize''])) = [''leak'']
   \<and> timers (win (run leaky initial (leak_load @ [Unmount, Dispatch Window ''resize'']))) = []
   \<and> sandboxCleanup (run leaky initial (leak_load @ [Unmount, Dispatch Window ''resize''])) = Some []"
  by code_simp
























text \<open>
  A timer that is scheduled through the scope and is still pending when the root is marked
  disposed: the browser calls the guarded closure, and the callback does not run.
\<close>

lemma pending_timer_is_inert:
  "timers (win (snd (invoke demo Bare SetTimeout (Callback 7 [Record ''x'']) (prepare_root initial))))
     = [(1, False, Guarded (Callback 7 [Record ''x'']))]
   \<and> recorder (fire demo 1 ((snd (invoke demo Bare SetTimeout (Callback 7 [Record ''x''])
        (prepare_root initial)))\<lparr>sandboxDisposed := True\<rparr>)) = []
   \<and> recorder (fire demo 1 (snd (invoke demo Bare SetTimeout (Callback 7 [Record ''x''])
        (prepare_root initial)))) = [''x'']"
  by code_simp

end
